theory Spec2Isabelle
  imports Complex_Main
begin

section \<open>Data model of the tournament client\<close>

text \<open>
  The repository is the browser client of the tournament voting game, written in
  TypeScript with React. Component state (the \<^verbatim>\<open>useState\<close> cells) is a record that every
  handler takes and returns; a rejected promise is the \<open>Inl\<close> branch of a sum; the
  network is a function from requests to replies together with the list of requests sent
  so far. An \<^verbatim>\<open>await\<close> splits a function in two steps, the call and its resumption, and
  other events may be handled between them. Arithmetic is that of double precision
  numbers: every operation rounds its exact result to the nearest double.
\<close>

record Item =
  id' :: string
  name :: string
  image_url :: string

record CurrentPair =
  round_number :: nat
  pair_index :: nat
  total_pairs :: nat
  item1 :: Item
  item2 :: Item

text \<open>
  \<^verbatim>\<open>interface VoteCount { [itemId: string]: number }\<close>: a plain object used as a
  dictionary, kept as the list of its own properties in the order of
  \<^verbatim>\<open>Object.values\<close>. The counts of the payload contract are nonnegative integers.
\<close>

type_synonym VoteCount = "(string \<times> nat) list"

record Player =
  player_id :: string
  nickname :: string
  is_organizer :: bool
  joined_at :: string

datatype bracket = Bracket (bracket_total_rounds: nat)

record results =
  winner :: Item
  total_rounds :: nat
  total_votes :: nat
  duration_seconds :: nat
  bracket :: bracket

text \<open>
  A parsed WebSocket message. The wire format is a JSON object whose \<^verbatim>\<open>type\<close> field
  names the kind; each constructor stands for one value of that field and carries the
  fields the handlers read. \<open>Unrecognised\<close> is a message of any other type.
\<close>

datatype event =
    PlayerJoined Player
  | GameStarted
  | NextPair CurrentPair
  | VoteUpdate VoteCount
  | RoundComplete nat
  | GameComplete results
  | Unrecognised

fun event_type :: "event \<Rightarrow> string option" where
  "event_type (PlayerJoined _) = Some ''player_joined''"
| "event_type GameStarted = Some ''game_started''"
| "event_type (NextPair _) = Some ''next_pair''"
| "event_type (VoteUpdate _) = Some ''vote_update''"
| "event_type (RoundComplete _) = Some ''round_complete''"
| "event_type (GameComplete _) = Some ''game_complete''"
| "event_type Unrecognised = None"

section \<open>The WebSocket hook\<close>

text \<open>
  The \<^verbatim>\<open>options\<close> object of \<^verbatim>\<open>useWebSocket\<close>: every handler is optional
  (\<^verbatim>\<open>options.onNextPair?.(data)\<close>). A handler is a transformer of the state of the
  component that registered it.
\<close>

record 'st options =
  onPlayerJoined :: "(Player \<Rightarrow> 'st \<Rightarrow> 'st) option"
  onGameStarted :: "('st \<Rightarrow> 'st) option"
  onVoteUpdate :: "(VoteCount \<Rightarrow> 'st \<Rightarrow> 'st) option"
  onNextPair :: "(CurrentPair \<Rightarrow> 'st \<Rightarrow> 'st) option"
  onRoundComplete :: "(nat \<Rightarrow> 'st \<Rightarrow> 'st) option"
  onGameComplete :: "(results \<Rightarrow> 'st \<Rightarrow> 'st) option"

definition optional_call :: "('a \<Rightarrow> 'st \<Rightarrow> 'st) option \<Rightarrow> 'a \<Rightarrow> 'st \<Rightarrow> 'st" where
  "optional_call handler x st = (case handler of None \<Rightarrow> st | Some f \<Rightarrow> f x st)"

definition optional_call0 :: "('st \<Rightarrow> 'st) option \<Rightarrow> 'st \<Rightarrow> 'st" where
  "optional_call0 handler st = (case handler of None \<Rightarrow> st | Some f \<Rightarrow> f st)"

text \<open>
  \<^verbatim>\<open>ws.onmessage\<close>: the \<^verbatim>\<open>switch (data.type)\<close> has the five cases
  \<^verbatim>\<open>player_joined\<close>, \<^verbatim>\<open>game_started\<close>, \<^verbatim>\<open>vote_update\<close>, \<^verbatim>\<open>next_pair\<close> and
  \<^verbatim>\<open>game_complete\<close>, in this order, and no default: every other message, a
  \<^verbatim>\<open>round_complete\<close> one included, leaves the switch without calling anything.
\<close>

fun onmessage :: "'st options \<Rightarrow> event \<Rightarrow> 'st \<Rightarrow> 'st" where
  "onmessage opts (PlayerJoined p) st = optional_call (onPlayerJoined opts) p st"
| "onmessage opts GameStarted st = optional_call0 (onGameStarted opts) st"
| "onmessage opts (VoteUpdate vc) st = optional_call (onVoteUpdate opts) vc st"
| "onmessage opts (NextPair p) st = optional_call (onNextPair opts) p st"
| "onmessage opts (GameComplete r) st = optional_call (onGameComplete opts) r st"
| "onmessage opts _ st = st"

text \<open>
  What the event stream contract asks of the dispatcher, in the words of the
  specification: each of the six kinds reaches the handler registered for it, with the
  payload of the event.
\<close>

fun registered_handler :: "'st options \<Rightarrow> event \<Rightarrow> 'st \<Rightarrow> 'st" where
  "registered_handler opts (PlayerJoined p) st = optional_call (onPlayerJoined opts) p st"
| "registered_handler opts GameStarted st = optional_call0 (onGameStarted opts) st"
| "registered_handler opts (NextPair p) st = optional_call (onNextPair opts) p st"
| "registered_handler opts (VoteUpdate vc) st = optional_call (onVoteUpdate opts) vc st"
| "registered_handler opts (RoundComplete n) st = optional_call (onRoundComplete opts) n st"
| "registered_handler opts (GameComplete r) st = optional_call (onGameComplete opts) r st"
| "registered_handler opts Unrecognised st = st"

section \<open>The HTTP client\<close>

record voteData =
  item_id :: string
  round_number :: nat
  pair_index :: nat

datatype http_method = GET | POST

record request =
  req_method :: http_method
  url :: string
  body :: "voteData option"

text \<open>
  The reply of axios: a response object with a \<^verbatim>\<open>data\<close> field, or a rejection ('e).
  The server is a parameter; \<open>sent\<close> is the list of requests issued so far.
\<close>

record 'd response =
  data :: 'd

type_synonym ('e, 'd) server = "request \<Rightarrow> 'e + 'd response"

definition api_post ::
  "('e, 'd) server \<Rightarrow> string \<Rightarrow> voteData option \<Rightarrow> request list
     \<Rightarrow> ('e + 'd response) \<times> request list" where
  "api_post srv path payload sent =
     (let req = \<lparr>req_method = POST, url = path, body = payload\<rparr>
      in (srv req, sent @ [req]))"

definition submitVote ::
  "('e, 'd) server \<Rightarrow> string \<Rightarrow> voteData \<Rightarrow> request list \<Rightarrow> ('e + 'd) \<times> request list" where
  "submitVote srv sessionCode voteData sent =
     (case api_post srv (''/sessions/'' @ sessionCode @ ''/vote'') (Some voteData) sent of
        (Inl err, sent') \<Rightarrow> (Inl err, sent')
      | (Inr response, sent') \<Rightarrow> (Inr (data response), sent'))"

definition startSession ::
  "('e, 'd) server \<Rightarrow> string \<Rightarrow> request list \<Rightarrow> ('e + 'd) \<times> request list" where
  "startSession srv sessionCode sent =
     (case api_post srv (''/sessions/'' @ sessionCode @ ''/start'') None sent of
        (Inl err, sent') \<Rightarrow> (Inl err, sent')
      | (Inr response, sent') \<Rightarrow> (Inr (data response), sent'))"

section \<open>JavaScript numbers\<close>

text \<open>
  The Number values that occur in this program are nonnegative: a finite double (kept as
  the rational it denotes), \<^verbatim>\<open>Infinity\<close> or \<^verbatim>\<open>NaN\<close>.
\<close>

datatype number = Finite rat | Infinity | NaN

fun floor_log2 :: "nat \<Rightarrow> nat" where
  "floor_log2 n = (if n < 2 then 0 else Suc (floor_log2 (n div 2)))"

declare floor_log2.simps [simp del]

text \<open>The binary exponent of a positive rational: \<open>2 powi exponent x \<le> x < 2 powi (exponent x + 1)\<close>.\<close>

definition exponent :: "rat \<Rightarrow> int" where
  "exponent x =
     (if 1 \<le> x then int (floor_log2 (nat \<lfloor>x\<rfloor>))
      else - int (Suc (floor_log2 (nat \<lceil>1 / x\<rceil> - 1))))"

definition round_half_even :: "rat \<Rightarrow> int" where
  "round_half_even z =
     (let f = \<lfloor>z\<rfloor>; d = z - of_int f
      in if d < 1 / 2 then f
         else if 1 / 2 < d then f + 1
         else if even f then f else f + 1)"

text \<open>
  The spacing of the doubles around \<open>x\<close>: 53 significant bits, and never finer than the
  subnormal spacing \<open>2 powi (- 1074)\<close>.
\<close>

definition ulp_exponent :: "rat \<Rightarrow> int" where
  "ulp_exponent x = max (exponent x - 52) (- 1074)"

definition round_to_double :: "rat \<Rightarrow> rat" where
  "round_to_double x =
     (if x \<le> 0 then 0
      else of_int (round_half_even (x / 2 powi ulp_exponent x)) * 2 powi ulp_exponent x)"

text \<open>
  The Number value of a nonnegative real: the nearest double, ties to even, and
  \<^verbatim>\<open>Infinity\<close> from \<open>2 ^ 1024\<close> on.
\<close>

definition to_double :: "rat \<Rightarrow> number" where
  "to_double x =
     (let r = round_to_double x in if 2 ^ 1024 \<le> r then Infinity else Finite r)"

definition is_double :: "rat \<Rightarrow> bool" where
  "is_double x = (to_double x = Finite x)"

definition MAX_SAFE_INTEGER :: nat where
  "MAX_SAFE_INTEGER = 2 ^ 53 - 1"

fun js_add :: "number \<Rightarrow> number \<Rightarrow> number" where
  "js_add (Finite a) (Finite b) = to_double (a + b)"
| "js_add NaN _ = NaN"
| "js_add _ NaN = NaN"
| "js_add _ _ = Infinity"

fun js_div :: "number \<Rightarrow> number \<Rightarrow> number" where
  "js_div (Finite a) (Finite b) =
     (if b = 0 then (if a = 0 then NaN else Infinity) else to_double (a / b))"
| "js_div NaN _ = NaN"
| "js_div _ NaN = NaN"
| "js_div (Finite a) Infinity = Finite 0"
| "js_div Infinity (Finite b) = Infinity"
| "js_div Infinity Infinity = NaN"

fun js_mul :: "number \<Rightarrow> number \<Rightarrow> number" where
  "js_mul (Finite a) (Finite b) = to_double (a * b)"
| "js_mul NaN _ = NaN"
| "js_mul _ NaN = NaN"
| "js_mul (Finite a) Infinity = (if a = 0 then NaN else Infinity)"
| "js_mul Infinity (Finite b) = (if b = 0 then NaN else Infinity)"
| "js_mul Infinity Infinity = Infinity"

text \<open>The remainder \<^verbatim>\<open>%\<close> is exact.\<close>

fun js_rem :: "number \<Rightarrow> number \<Rightarrow> number" where
  "js_rem (Finite a) (Finite b) =
     (if b = 0 then NaN else Finite (a - b * of_int \<lfloor>a / b\<rfloor>))"
| "js_rem (Finite a) Infinity = Finite a"
| "js_rem _ _ = NaN"

text \<open>\<^verbatim>\<open>Math.round\<close>: the nearest integer, a half rounded up.\<close>

fun Math_round :: "number \<Rightarrow> number" where
  "Math_round (Finite x) = Finite (of_int \<lfloor>x + 1 / 2\<rfloor>)"
| "Math_round Infinity = Infinity"
| "Math_round NaN = NaN"

fun Math_floor :: "number \<Rightarrow> number" where
  "Math_floor (Finite x) = Finite (of_int \<lfloor>x\<rfloor>)"
| "Math_floor Infinity = Infinity"
| "Math_floor NaN = NaN"

text \<open>
  Reading a property of a \<^verbatim>\<open>VoteCount\<close> object gives the count of an own property,
  the member of \<^verbatim>\<open>Object.prototype\<close> for a name inherited from it (a function, or the
  prototype itself for \<^verbatim>\<open>__proto__\<close>: an object in both cases), and \<^verbatim>\<open>undefined\<close>
  otherwise.
\<close>

datatype jsvalue = JSNumber number | JSObject | JSUndefined

definition Object_prototype_keys :: "string list" where
  "Object_prototype_keys =
     [''constructor'', ''__defineGetter__'', ''__defineSetter__'', ''hasOwnProperty'',
      ''__lookupGetter__'', ''__lookupSetter__'', ''isPrototypeOf'',
      ''propertyIsEnumerable'', ''toString'', ''valueOf'', ''__proto__'',
      ''toLocaleString'']"

definition get_property :: "VoteCount \<Rightarrow> string \<Rightarrow> jsvalue" where
  "get_property obj key =
     (case map_of obj key of
        Some c \<Rightarrow> JSNumber (Finite (of_nat c))
      | None \<Rightarrow> if key \<in> set Object_prototype_keys then JSObject else JSUndefined)"

fun truthy :: "jsvalue \<Rightarrow> bool" where
  "truthy (JSNumber n) = (n \<noteq> Finite 0 \<and> n \<noteq> NaN)"
| "truthy JSObject = True"
| "truthy JSUndefined = False"

text \<open>\<^verbatim>\<open>v || 0\<close>.\<close>

definition or_zero :: "jsvalue \<Rightarrow> jsvalue" where
  "or_zero v = (if truthy v then v else JSNumber (Finite 0))"

text \<open>The operand of an arithmetic operator: an object or \<^verbatim>\<open>undefined\<close> becomes \<^verbatim>\<open>NaN\<close>.\<close>

fun ToNumber :: "jsvalue \<Rightarrow> number" where
  "ToNumber (JSNumber n) = n"
| "ToNumber JSObject = NaN"
| "ToNumber JSUndefined = NaN"

definition Object_values :: "VoteCount \<Rightarrow> number list" where
  "Object_values obj = map (\<lambda>(key, c). Finite (of_nat c)) obj"

section \<open>The game screen\<close>

record game_state =
  currentPair :: "CurrentPair option"
  voteCounts :: VoteCount
  totalRounds :: nat
  hasVoted :: bool
  selectedItem :: "string option"
  showRoundComplete :: bool
  showGameComplete :: bool
  gameResults :: "results option"

definition initial_game_state :: game_state where
  "initial_game_state =
     \<lparr>currentPair = None, voteCounts = [], totalRounds = 5, hasVoted = False,
      selectedItem = None, showRoundComplete = False, showGameComplete = False,
      gameResults = None\<rparr>"

definition TournamentGame_onNextPair :: "CurrentPair \<Rightarrow> game_state \<Rightarrow> game_state" where
  "TournamentGame_onNextPair d st =
     st\<lparr>currentPair := Some d, voteCounts := [], hasVoted := False,
        selectedItem := None, showRoundComplete := False\<rparr>"

definition TournamentGame_onVoteUpdate :: "VoteCount \<Rightarrow> game_state \<Rightarrow> game_state" where
  "TournamentGame_onVoteUpdate vote_counts st = st\<lparr>voteCounts := vote_counts\<rparr>"

text \<open>
  \<^verbatim>\<open>onRoundComplete\<close> shows the pause screen and starts a timer; the timer's callback,
  three seconds later, is the separate step \<open>roundCompleteTimeout\<close>.
\<close>

definition TournamentGame_onRoundComplete :: "nat \<Rightarrow> game_state \<Rightarrow> game_state" where
  "TournamentGame_onRoundComplete d st = st\<lparr>showRoundComplete := True\<rparr>"

definition roundCompleteTimeout :: "game_state \<Rightarrow> game_state" where
  "roundCompleteTimeout st = st\<lparr>showRoundComplete := False\<rparr>"

definition TournamentGame_onGameComplete :: "results \<Rightarrow> game_state \<Rightarrow> game_state" where
  "TournamentGame_onGameComplete d st = st\<lparr>gameResults := Some d, showGameComplete := True\<rparr>"

definition TournamentGame_options :: "game_state options" where
  "TournamentGame_options =
     \<lparr>onPlayerJoined = None,
      onGameStarted = None,
      onVoteUpdate = Some TournamentGame_onVoteUpdate,
      onNextPair = Some TournamentGame_onNextPair,
      onRoundComplete = Some TournamentGame_onRoundComplete,
      onGameComplete = Some TournamentGame_onGameComplete\<rparr>"

text \<open>The events of a session's channel, handled in their order of arrival.\<close>

fun receive_all :: "event list \<Rightarrow> game_state \<Rightarrow> game_state" where
  "receive_all [] st = st"
| "receive_all (ev # evs) st = receive_all evs (onmessage TournamentGame_options ev st)"

text \<open>
  \<^verbatim>\<open>handleVote\<close> up to its \<^verbatim>\<open>await\<close>. The guard returns when a vote is already
  recorded or no pair is shown. Otherwise the choice is stored and the request is sent;
  the call then waits for the outcome of \<open>submitVote\<close>, which is returned as the third
  component.
\<close>

definition handleVote_call ::
  "string \<Rightarrow> ('e, 'd) server \<Rightarrow> string \<Rightarrow> game_state \<times> request list
     \<Rightarrow> game_state \<times> request list \<times> ('e + 'd) option" where
  "handleVote_call sessionCode srv itemId = (\<lambda>(st, sent).
     (case currentPair st of
        None \<Rightarrow> (st, sent, None)
      | Some p \<Rightarrow>
          if hasVoted st then (st, sent, None)
          else
            (case submitVote srv sessionCode
                    \<lparr>item_id = itemId,
                     round_number = CurrentPair.round_number p,
                     pair_index = CurrentPair.pair_index p\<rparr> sent of
               (outcome, sent') \<Rightarrow>
                 (st\<lparr>selectedItem := Some itemId, hasVoted := True\<rparr>, sent', Some outcome))))"

text \<open>
  \<^verbatim>\<open>handleVote\<close> after its \<^verbatim>\<open>await\<close>, run when the reply arrives, on the state of that
  moment: the \<^verbatim>\<open>catch\<close> block clears the two cells, a fulfilled request changes nothing.
\<close>

definition handleVote_resume :: "'e + 'd \<Rightarrow> game_state \<Rightarrow> game_state" where
  "handleVote_resume outcome st =
     (case outcome of
        Inl error \<Rightarrow> st\<lparr>hasVoted := False, selectedItem := None\<rparr>
      | Inr _ \<Rightarrow> st)"

definition getVotePercentage :: "VoteCount \<Rightarrow> string \<Rightarrow> number" where
  "getVotePercentage vc itemId =
     (let total = foldl (\<lambda>sum count. js_add sum count) (Finite 0) (Object_values vc)
      in if total = Finite 0 then Finite 0
         else Math_round
                (js_mul (js_div (ToNumber (or_zero (get_property vc itemId))) total)
                   (Finite 100)))"

text \<open>
  What the component renders. The tally of a card (its vote count and percentage) is
  shown only when \<^verbatim>\<open>Object.keys(voteCounts).length > 0\<close>.
\<close>

record card =
  card_item :: Item
  card_selected :: bool
  card_tally :: "(jsvalue \<times> number) option"

datatype game_view =
    GameCompleteView results string
  | RoundCompleteView
  | WaitingView
  | PairView CurrentPair nat card card bool

definition render_card :: "game_state \<Rightarrow> Item \<Rightarrow> card" where
  "render_card st it =
     \<lparr>card_item = it,
      card_selected = (selectedItem st = Some (id' it)),
      card_tally =
        (if length (voteCounts st) > 0
         then Some (or_zero (get_property (voteCounts st) (id' it)),
                    getVotePercentage (voteCounts st) (id' it))
         else None)\<rparr>"

definition render :: "string \<Rightarrow> game_state \<Rightarrow> game_view" where
  "render sessionCode st =
     (case (showGameComplete st, gameResults st) of
        (True, Some r) \<Rightarrow> GameCompleteView r sessionCode
      | _ \<Rightarrow>
          if showRoundComplete st then RoundCompleteView
          else (case currentPair st of
                  None \<Rightarrow> WaitingView
                | Some p \<Rightarrow>
                    PairView p (totalRounds st) (render_card st (item1 p))
                      (render_card st (item2 p)) (hasVoted st)))"

text \<open>
  The running component: its state, the requests sent so far, and the calls of
  \<^verbatim>\<open>handleVote\<close> that wait for their reply, each under the index of its request and with
  the outcome the server will give it.
\<close>

record ('e, 'd) client =
  screen :: game_state
  requests :: "request list"
  pending :: "nat \<rightharpoonup> 'e + 'd"

definition initial_client :: "('e, 'd) client" where
  "initial_client = \<lparr>screen = initial_game_state, requests = [], pending = Map.empty\<rparr>"

text \<open>
  What can happen to it: a message arrives, the player clicks one of the two cards (the
  server that will answer the request is part of the step), the reply to a waiting call
  arrives, or the timer of the pause screen fires. The cards, and so their click
  handlers, exist only while the pair view is rendered.
\<close>

datatype card_choice = Item1 | Item2

fun chosen :: "card_choice \<Rightarrow> CurrentPair \<Rightarrow> string" where
  "chosen Item1 p = id' (item1 p)"
| "chosen Item2 p = id' (item2 p)"

datatype ('e, 'd) action =
    Message event
  | Click card_choice "('e, 'd) server"
  | Settle nat
  | Timeout

definition shown_pair :: "string \<Rightarrow> game_state \<Rightarrow> CurrentPair option" where
  "shown_pair sessionCode st =
     (case render sessionCode st of PairView p _ _ _ _ \<Rightarrow> Some p | _ \<Rightarrow> None)"

fun step :: "string \<Rightarrow> ('e, 'd) action \<Rightarrow> ('e, 'd) client \<Rightarrow> ('e, 'd) client" where
  "step sessionCode (Message ev) c =
     c\<lparr>screen := onmessage TournamentGame_options ev (screen c)\<rparr>"
| "step sessionCode (Click choice srv) c =
     (case shown_pair sessionCode (screen c) of
        None \<Rightarrow> c
      | Some p \<Rightarrow>
          (case handleVote_call sessionCode srv (chosen choice p) (screen c, requests c) of
             (st, sent', None) \<Rightarrow> c\<lparr>screen := st, requests := sent'\<rparr>
           | (st, sent', Some outcome) \<Rightarrow>
               c\<lparr>screen := st, requests := sent',
                 pending := (pending c)(length (requests c) \<mapsto> outcome)\<rparr>))"
| "step sessionCode (Settle k) c =
     (case pending c k of
        None \<Rightarrow> c
      | Some outcome \<Rightarrow>
          c\<lparr>screen := handleVote_resume outcome (screen c),
            pending := (pending c)(k := None)\<rparr>)"
| "step sessionCode Timeout c = c\<lparr>screen := roundCompleteTimeout (screen c)\<rparr>"

fun run :: "string \<Rightarrow> ('e, 'd) action list \<Rightarrow> ('e, 'd) client \<Rightarrow> ('e, 'd) client" where
  "run sessionCode [] c = c"
| "run sessionCode (a # as) c = run sessionCode as (step sessionCode a c)"

text \<open>
  The states the component can be in: the initial one, and every state reached from a
  reachable one by a step.
\<close>

inductive reachable :: "string \<Rightarrow> ('e, 'd) client \<Rightarrow> bool" for sessionCode :: string where
  reachable_initial: "reachable sessionCode initial_client"
| reachable_step:
    "reachable sessionCode c \<Longrightarrow> reachable sessionCode (step sessionCode a c)"

section \<open>The results screen\<close>

definition digit_char :: "nat \<Rightarrow> char" where
  "digit_char d = ''0123456789'' ! d"

text \<open>The decimal digits of a natural number.\<close>

fun decimal :: "nat \<Rightarrow> string" where
  "decimal n =
     (if n < 10 then [digit_char n] else decimal (n div 10) @ [digit_char (n mod 10)])"

declare decimal.simps [simp del]

text \<open>
  \<^verbatim>\<open>Number.prototype.toString\<close> on an integer \<open>x\<close>. The digits printed are those of the
  shortest \<open>s\<close> for which \<open>s * 10 ^ p\<close> has \<open>x\<close> as its Number value; among the
  candidates of that length the one nearest to \<open>x\<close> is taken, an even one on a tie.
  With \<open>k\<close> digits in \<open>s\<close> and \<open>n = k + p\<close>, the result is the digits followed by \<open>p\<close>
  zeros when \<open>n \<le> 21\<close>, and exponent notation otherwise.
\<close>

definition represents :: "nat \<Rightarrow> nat \<Rightarrow> nat \<Rightarrow> bool" where
  "represents x s p = (1 \<le> s \<and> to_double (of_nat (s * 10 ^ p)) = Finite (of_nat x))"

fun shortest :: "nat \<Rightarrow> nat \<Rightarrow> nat \<times> nat" where
  "shortest x 0 = (x, 0)"
| "shortest x (Suc p) =
     (let lo = x div 10 ^ Suc p;
          hi = Suc lo;
          below = x - lo * 10 ^ Suc p;
          above = hi * 10 ^ Suc p - x
      in if represents x lo (Suc p) \<and> represents x hi (Suc p)
         then (if below < above \<or> (below = above \<and> even lo) then (lo, Suc p) else (hi, Suc p))
         else if represents x lo (Suc p) then (lo, Suc p)
         else if represents x hi (Suc p) then (hi, Suc p)
         else shortest x p)"

definition Number_toString :: "nat \<Rightarrow> string" where
  "Number_toString x =
     (if x = 0 then ''0''
      else
        (case shortest x (length (decimal x)) of (s, p) \<Rightarrow>
           let k = length (decimal s); n = k + p
           in if n \<le> 21 then decimal s @ replicate p (CHR ''0'')
              else (if k = 1 then decimal s else hd (decimal s) # ''.'' @ tl (decimal s))
                   @ ''e+'' @ decimal (n - 1)))"

text \<open>
  The numbers printed by this program are integers (a floor and a remainder of an
  integer), so only their printing is written out.
\<close>

fun toString :: "number \<Rightarrow> string" where
  "toString (Finite x) = Number_toString (nat \<lfloor>x\<rfloor>)"
| "toString Infinity = ''Infinity''"
| "toString NaN = ''NaN''"

definition padStart :: "nat \<Rightarrow> char \<Rightarrow> string \<Rightarrow> string" where
  "padStart targetLength c str = replicate (targetLength - length str) c @ str"

definition formatDuration :: "nat \<Rightarrow> string" where
  "formatDuration seconds =
     (let minutes = Math_floor (js_div (Finite (of_nat seconds)) (Finite 60));
          remainingSeconds = js_rem (Finite (of_nat seconds)) (Finite 60)
      in toString minutes @ '':'' @ padStart 2 (CHR ''0'') (toString remainingSeconds))"

text \<open>
  Reading a decimal numeral back, to say what "the decimal representation" of a number is
  without referring to the printing functions.
\<close>

definition is_digit :: "char \<Rightarrow> bool" where
  "is_digit c = (c \<in> set ''0123456789'')"

definition digit_value :: "char \<Rightarrow> nat" where
  "digit_value c = of_char c - 48"

definition decimal_value :: "string \<Rightarrow> nat" where
  "decimal_value str = foldl (\<lambda>acc c. 10 * acc + digit_value c) 0 str"

definition canonical_decimal :: "string \<Rightarrow> bool" where
  "canonical_decimal str =
     (str \<noteq> [] \<and> list_all is_digit str \<and> (str = ''0'' \<or> hd str \<noteq> CHR ''0''))"

section \<open>The lobby screen\<close>

record lobby_state =
  players :: "Player list"
  loading :: bool
  copySuccess :: bool
  isOrganizer :: bool
  location :: string

definition GameLobby_onPlayerJoined :: "Player \<Rightarrow> lobby_state \<Rightarrow> lobby_state" where
  "GameLobby_onPlayerJoined p st = st\<lparr>players := players st @ [p]\<rparr>"

definition GameLobby_onGameStarted :: "string \<Rightarrow> lobby_state \<Rightarrow> lobby_state" where
  "GameLobby_onGameStarted sessionCode st = st\<lparr>location := ''/game/'' @ sessionCode\<rparr>"

definition GameLobby_options :: "string \<Rightarrow> lobby_state options" where
  "GameLobby_options sessionCode =
     \<lparr>onPlayerJoined = Some GameLobby_onPlayerJoined,
      onGameStarted = Some (GameLobby_onGameStarted sessionCode),
      onVoteUpdate = None,
      onNextPair = None,
      onRoundComplete = None,
      onGameComplete = None\<rparr>"

text \<open>
  The Start Game button is rendered for the organizer only, with
  \<^verbatim>\<open>disabled={players.length < 2}\<close>; the caption "Minimum 2 players required" is shown
  under the same condition. While \<^verbatim>\<open>loading\<close> the screen is a spinner.
\<close>

record start_button =
  disabled :: bool
  caption_shown :: bool

datatype lobby_view =
    LoadingView
  | LobbyView "Player list" "start_button option"

definition render_lobby :: "lobby_state \<Rightarrow> lobby_view" where
  "render_lobby st =
     (if loading st then LoadingView
      else LobbyView (players st)
             (if isOrganizer st
              then Some \<lparr>disabled = length (players st) < 2,
                         caption_shown = length (players st) < 2\<rparr>
              else None))"

definition start_enabled :: "lobby_state \<Rightarrow> bool" where
  "start_enabled st =
     (case render_lobby st of
        LobbyView _ (Some b) \<Rightarrow> \<not> disabled b
      | _ \<Rightarrow> False)"

section \<open>The session engine's start action\<close>

text \<open>
  Modelled from the spec: the session engine runs on the server and is not part of the
  client sources. Its states, its error taxonomy and the fields of a session that the
  start action reads and writes are taken from the specification's data model.
\<close>

datatype session_status = Lobby | InProgress | RoundTransition | Complete | Abandoned

datatype engine_error =
  NotFound | InvalidState | PreconditionFailed | InvalidInput | ResourceExhausted | Conflict

record session =
  code :: string
  status :: session_status
  roster :: "Player list"
  currentRoundNumber :: nat
  currentPairIndex :: nat

text \<open>
  Modelled from the spec: the server's handler of \<^verbatim>\<open>POST /sessions/{code}/start\<close> is
  missing from the sources. The specification gives the transition from Lobby to
  InProgress: it requires a roster of at least 2 players and fails with
  PreconditionFailed otherwise; on success play begins at round 1, pair 0. A start
  request in any other state is illegal for that state (InvalidState).
\<close>

definition start :: "session \<Rightarrow> engine_error + session" where
  "start s =
     (if status s \<noteq> Lobby then Inl InvalidState
      else if length (roster s) < 2 then Inl PreconditionFailed
      else Inr (s\<lparr>status := InProgress, currentRoundNumber := 1, currentPairIndex := 0\<rparr>))"

section \<open>Vocabulary of the statements\<close>

text \<open>
  The request that the interface \<^verbatim>\<open>POST /sessions/{code}/vote\<close> describes for a vote
  on the pair \<open>p\<close>.
\<close>

definition vote_request :: "string \<Rightarrow> string \<Rightarrow> CurrentPair \<Rightarrow> request" where
  "vote_request sessionCode itemId p =
     \<lparr>req_method = POST,
      url = ''/sessions/'' @ sessionCode @ ''/vote'',
      body = Some \<lparr>item_id = itemId,
                   round_number = CurrentPair.round_number p,
                   pair_index = CurrentPair.pair_index p\<rparr>\<rparr>"

text \<open>
  The payload of the last \<^verbatim>\<open>game_complete\<close> event of a sequence, or \<open>r\<close> when it has
  none.
\<close>

fun last_results :: "results \<Rightarrow> event list \<Rightarrow> results" where
  "last_results r [] = r"
| "last_results r (GameComplete r' # evs) = last_results r' evs"
| "last_results r (_ # evs) = last_results r evs"

text \<open>
  A step that is neither a \<^verbatim>\<open>next_pair\<close> event nor the reply that rejects a waiting
  submission, and a sequence of such steps.
\<close>

fun undisturbed :: "('e, 'd) action \<Rightarrow> ('e, 'd) client \<Rightarrow> bool" where
  "undisturbed (Message ev) c = (event_type ev \<noteq> Some ''next_pair'')"
| "undisturbed (Settle k) c = (case pending c k of Some (Inl error) \<Rightarrow> False | _ \<Rightarrow> True)"
| "undisturbed _ c = True"

fun undisturbed_run :: "string \<Rightarrow> ('e, 'd) action list \<Rightarrow> ('e, 'd) client \<Rightarrow> bool" where
  "undisturbed_run sessionCode [] c = True"
| "undisturbed_run sessionCode (a # as) c =
     (undisturbed a c \<and> undisturbed_run sessionCode as (step sessionCode a c))"


section \<open>A sample session\<close>

definition item_a :: Item where
  "item_a = \<lparr>id' = ''a'', name = ''Alpha'', image_url = ''/a.png''\<rparr>"

definition item_b :: Item where
  "item_b = \<lparr>id' = ''b'', name = ''Beta'', image_url = ''/b.png''\<rparr>"

definition item_c :: Item where
  "item_c = \<lparr>id' = ''c'', name = ''Gamma'', image_url = ''/c.png''\<rparr>"

definition item_d :: Item where
  "item_d = \<lparr>id' = ''d'', name = ''Delta'', image_url = ''/d.png''\<rparr>"

definition pair0 :: CurrentPair where
  "pair0 =
     \<lparr>CurrentPair.round_number = 1, pair_index = 0, total_pairs = 2,
      item1 = item_a, item2 = item_b\<rparr>"

definition pair1 :: CurrentPair where
  "pair1 =
     \<lparr>CurrentPair.round_number = 1, pair_index = 1, total_pairs = 2,
      item1 = item_c, item2 = item_d\<rparr>"

definition results_a :: results where
  "results_a =
     \<lparr>winner = item_a, total_rounds = 1, total_votes = 2, duration_seconds = 125,
      bracket = Bracket 1\<rparr>"

definition results_b :: results where
  "results_b =
     \<lparr>winner = item_b, total_rounds = 1, total_votes = 2, duration_seconds = 125,
      bracket = Bracket 1\<rparr>"

definition srv_ok :: "(unit, unit) server" where
  "srv_ok req = Inr \<lparr>data = ()\<rparr>"

definition srv_reject :: "(unit, unit) server" where
  "srv_reject req = Inl ()"

text \<open>A server on which the first pair is already resolved: it rejects votes on it.\<close>

definition srv_late :: "(unit, unit) server" where
  "srv_late req =
     (case body req of
        None \<Rightarrow> Inl ()
      | Some vote \<Rightarrow>
          if round_number vote = 1 \<and> pair_index vote = 0 then Inl () else Inr \<lparr>data = ()\<rparr>)"

text \<open>The game screen after the first pair was presented, and after a vote for item a.\<close>

definition pair_shown :: game_state where
  "pair_shown = onmessage TournamentGame_options (NextPair pair0) initial_game_state"

definition pair_shown_client :: "(unit, unit) client" where
  "pair_shown_client = run ''ABC'' [Message (NextPair pair0)] initial_client"

definition voted_a :: "(unit, unit) client" where
  "voted_a = run ''ABC'' [Click Item1 srv_ok, Settle 0] pair_shown_client"

text \<open>
  A late rejection: the player votes for a on the first pair, the next pair arrives while
  that request is in flight, the player votes for c and the server accepts it, and then
  the rejection of the first request arrives.
\<close>

definition vote_c_accepted :: "(unit, unit) action list" where
  "vote_c_accepted =
     [Message (NextPair pair0), Click Item1 srv_late, Message (NextPair pair1),
      Click Item1 srv_late, Settle 1]"

definition late_rejection :: "(unit, unit) action list" where
  "late_rejection = vote_c_accepted @ [Settle 0]"

definition player_ann :: Player where
  "player_ann =
     \<lparr>player_id = ''p1'', nickname = ''Ann'', is_organizer = True,
      joined_at = ''2024-01-01T10:00:00Z''\<rparr>"

definition player_bob :: Player where
  "player_bob =
     \<lparr>player_id = ''p2'', nickname = ''Bob'', is_organizer = False,
      joined_at = ''2024-01-01T10:00:05Z''\<rparr>"

definition lobby_session :: "Player list \<Rightarrow> session" where
  "lobby_session ps =
     \<lparr>code = ''ABC'', status = Lobby, roster = ps, currentRoundNumber = 0,
      currentPairIndex = 0\<rparr>"

definition organizer_lobby :: "Player list \<Rightarrow> lobby_state" where
  "organizer_lobby ps =
     \<lparr>players = ps, loading = False, copySuccess = False, isOrganizer = True,
      location = ''/lobby/ABC''\<rparr>"

section \<open>Dispatch of incoming messages\<close>

lemma onmessage_round_complete: "onmessage opts (RoundComplete n) st = st"
  by simp

lemma onmessage_other_kinds:
  "event_type ev \<noteq> Some ''round_complete'' \<Longrightarrow>
   onmessage opts ev st = registered_handler opts ev st"
  by (cases ev) simp_all

text \<open>
  C1. The dispatcher is to call, for each of the six kinds of event, the handler
  registered for that kind. It does so for five kinds (\<open>onmessage_other_kinds\<close>), but
  its switch has no \<^verbatim>\<open>round_complete\<close> case: on the game screen, where an
  \<open>onRoundComplete\<close> handler is registered, a \<^verbatim>\<open>round_complete\<close> message leaves the
  state as it was, whereas the registered handler would have shown the pause screen.
\<close>

theorem round_complete_dropped:
  "onmessage TournamentGame_options (RoundComplete 1) pair_shown = pair_shown
   \<and> \<not> showRoundComplete (onmessage TournamentGame_options (RoundComplete 1) pair_shown)
   \<and> showRoundComplete (registered_handler TournamentGame_options (RoundComplete 1) pair_shown)
   \<and> render ''ABC'' (registered_handler TournamentGame_options (RoundComplete 1) pair_shown)
       = RoundCompleteView
   \<and> render ''ABC'' (onmessage TournamentGame_options (RoundComplete 1) pair_shown)
       \<noteq> RoundCompleteView"
  by (simp add: pair_shown_def TournamentGame_options_def optional_call_def
      TournamentGame_onNextPair_def TournamentGame_onRoundComplete_def render_def
      initial_game_state_def)

section \<open>Submitting a vote\<close>

lemma submitVote_eq:
  "submitVote srv sessionCode vd sent =
     ((case srv \<lparr>req_method = POST, url = ''/sessions/'' @ sessionCode @ ''/vote'',
                  body = Some vd\<rparr> of
         Inl err \<Rightarrow> Inl err
       | Inr response \<Rightarrow> Inr (data response)),
      sent @ [\<lparr>req_method = POST, url = ''/sessions/'' @ sessionCode @ ''/vote'',
                body = Some vd\<rparr>])"
  by (simp add: submitVote_def api_post_def Let_def split: sum.splits)

text \<open>
  C6. \<open>submitVote\<close> adds exactly one request to those already sent: a POST to
  \<^verbatim>\<open>/sessions/{sessionCode}/vote\<close> whose body is its argument, the three fields
  unchanged. It returns the \<^verbatim>\<open>data\<close> of the server's response, or the server's error.
\<close>

theorem submitVote_one_post:
  "(\<exists>req. snd (submitVote srv sessionCode vd sent) = sent @ [req]
      \<and> req_method req = POST
      \<and> url req = ''/sessions/'' @ sessionCode @ ''/vote''
      \<and> body req = Some vd
      \<and> fst (submitVote srv sessionCode vd sent)
          = (case srv req of Inl err \<Rightarrow> Inl err | Inr response \<Rightarrow> Inr (data response)))
   \<and> length (snd (submitVote srv sessionCode vd sent)) = length sent + 1"
  by (simp add: submitVote_eq)

theorem submitVote_one_post_witness:
  "snd (submitVote srv_ok ''ABC'' \<lparr>item_id = ''a'', round_number = 1, pair_index = 0\<rparr> [])
     = [\<lparr>req_method = POST, url = ''/sessions/ABC/vote'',
         body = Some \<lparr>item_id = ''a'', round_number = 1, pair_index = 0\<rparr>\<rparr>]
   \<and> fst (submitVote srv_ok ''ABC'' \<lparr>item_id = ''a'', round_number = 1, pair_index = 0\<rparr> [])
     = Inr ()
   \<and> fst (submitVote srv_reject ''ABC'' \<lparr>item_id = ''a'', round_number = 1, pair_index = 0\<rparr> [])
     = Inl ()"
  using submitVote_one_post [of srv_ok "''ABC''"
      "\<lparr>item_id = ''a'', round_number = 1, pair_index = 0\<rparr>" "[]"]
    submitVote_one_post [of srv_reject "''ABC''"
      "\<lparr>item_id = ''a'', round_number = 1, pair_index = 0\<rparr>" "[]"]
  by (auto simp: srv_ok_def srv_reject_def)

lemma handleVote_call_guard:
  "hasVoted st \<Longrightarrow> handleVote_call sessionCode srv itemId (st, sent) = (st, sent, None)"
  by (simp add: handleVote_call_def split: option.splits)

lemma handleVote_call_no_pair:
  "currentPair st = None \<Longrightarrow> handleVote_call sessionCode srv itemId (st, sent) = (st, sent, None)"
  by (simp add: handleVote_call_def)

lemma handleVote_call_accepted:
  assumes "currentPair st = Some p" and "\<not> hasVoted st"
    and "srv (vote_request sessionCode itemId p) = Inr resp"
  shows "handleVote_call sessionCode srv itemId (st, sent) =
           (st\<lparr>selectedItem := Some itemId, hasVoted := True\<rparr>,
            sent @ [vote_request sessionCode itemId p], Some (Inr (data resp)))"
  using assms by (simp add: handleVote_call_def submitVote_eq vote_request_def)

lemma handleVote_call_rejected:
  assumes "currentPair st = Some p" and "\<not> hasVoted st"
    and "srv (vote_request sessionCode itemId p) = Inl err"
  shows "handleVote_call sessionCode srv itemId (st, sent) =
           (st\<lparr>selectedItem := Some itemId, hasVoted := True\<rparr>,
            sent @ [vote_request sessionCode itemId p], Some (Inl err))"
  using assms by (simp add: handleVote_call_def submitVote_eq vote_request_def)

lemma shown_pair_current: "shown_pair sessionCode st = Some p \<Longrightarrow> currentPair st = Some p"
  by (auto simp: shown_pair_def render_def split: if_splits option.splits bool.splits prod.splits)

lemma click_guard: "hasVoted (screen c) \<Longrightarrow> step sessionCode (Click choice srv) c = c"
  by (simp add: handleVote_call_guard split: option.splits)

lemma click_accepted:
  assumes "shown_pair sessionCode (screen c) = Some p" and "\<not> hasVoted (screen c)"
    and "srv (vote_request sessionCode (chosen choice p) p) = Inr resp"
  shows "step sessionCode (Click choice srv) c =
           c\<lparr>screen := (screen c)\<lparr>selectedItem := Some (chosen choice p), hasVoted := True\<rparr>,
             requests := requests c @ [vote_request sessionCode (chosen choice p) p],
             pending := (pending c)(length (requests c) \<mapsto> Inr (data resp))\<rparr>"
  using assms shown_pair_current [OF assms(1)]
  by (simp add: handleVote_call_accepted)

lemma click_rejected:
  assumes "shown_pair sessionCode (screen c) = Some p" and "\<not> hasVoted (screen c)"
    and "srv (vote_request sessionCode (chosen choice p) p) = Inl err"
  shows "step sessionCode (Click choice srv) c =
           c\<lparr>screen := (screen c)\<lparr>selectedItem := Some (chosen choice p), hasVoted := True\<rparr>,
             requests := requests c @ [vote_request sessionCode (chosen choice p) p],
             pending := (pending c)(length (requests c) \<mapsto> Inl err)\<rparr>"
  using assms shown_pair_current [OF assms(1)]
  by (simp add: handleVote_call_rejected)

text \<open>An undisturbed step keeps a recorded vote and sends nothing.\<close>

lemma undisturbed_step_keeps_vote:
  assumes "hasVoted (screen c)" and "undisturbed a c"
  shows "hasVoted (screen (step sessionCode a c))
       \<and> selectedItem (screen (step sessionCode a c)) = selectedItem (screen c)
       \<and> requests (step sessionCode a c) = requests c"
proof (cases a)
  case (Message ev)
  with assms show ?thesis
    by (cases ev)
      (simp_all add: TournamentGame_options_def optional_call_def optional_call0_def
        TournamentGame_onVoteUpdate_def TournamentGame_onGameComplete_def)
next
  case (Click choice srv)
  with assms(1) show ?thesis by (simp only: click_guard)
next
  case (Settle k)
  with assms show ?thesis
    by (auto simp: handleVote_resume_def split: option.splits sum.splits)
next
  case Timeout
  with assms show ?thesis by (simp add: roundCompleteTimeout_def)
qed

lemma undisturbed_run_keeps_vote:
  assumes "hasVoted (screen c)" and "undisturbed_run sessionCode as c"
  shows "hasVoted (screen (run sessionCode as c))
       \<and> selectedItem (screen (run sessionCode as c)) = selectedItem (screen c)
       \<and> requests (run sessionCode as c) = requests c"
  using assms
proof (induction as arbitrary: c)
  case Nil
  then show ?case by simp
next
  case (Cons a as)
  from Cons.prems have u: "undisturbed a c"
    and rest: "undisturbed_run sessionCode as (step sessionCode a c)" by simp_all
  from Cons.prems(1) u have keep: "hasVoted (screen (step sessionCode a c))
       \<and> selectedItem (screen (step sessionCode a c)) = selectedItem (screen c)
       \<and> requests (step sessionCode a c) = requests c"
    by (rule undisturbed_step_keeps_vote)
  then have "hasVoted (screen (step sessionCode a c))" by simp
  from this rest have "hasVoted (screen (run sessionCode as (step sessionCode a c)))
       \<and> selectedItem (screen (run sessionCode as (step sessionCode a c)))
           = selectedItem (screen (step sessionCode a c))
       \<and> requests (run sessionCode as (step sessionCode a c)) = requests (step sessionCode a c)"
    by (rule Cons.IH)
  with keep show ?case by simp
qed

lemma not_voted_nothing_selected:
  "reachable sessionCode c \<Longrightarrow> \<not> hasVoted (screen c) \<Longrightarrow> selectedItem (screen c) = None"
proof (induction rule: reachable.induct)
  case reachable_initial
  show ?case by (simp add: initial_client_def initial_game_state_def)
next
  case (reachable_step c a)
  show ?case
  proof (cases a)
    case (Message ev)
    with reachable_step show ?thesis
      by (cases ev)
        (auto simp: TournamentGame_options_def optional_call_def optional_call0_def
          TournamentGame_onNextPair_def TournamentGame_onVoteUpdate_def
          TournamentGame_onGameComplete_def)
  next
    case (Click choice srv)
    with reachable_step show ?thesis
      by (auto simp: handleVote_call_def submitVote_eq split: option.splits if_splits)
  next
    case (Settle k)
    with reachable_step show ?thesis
      by (auto simp: handleVote_resume_def split: option.splits sum.splits)
  next
    case Timeout
    with reachable_step show ?thesis by (simp add: roundCompleteTimeout_def)
  qed
qed

lemmas eval_client = initial_client_def initial_game_state_def shown_pair_def render_def
  handleVote_call_def handleVote_resume_def submitVote_eq vote_request_def
  TournamentGame_options_def optional_call_def TournamentGame_onNextPair_def
  TournamentGame_onVoteUpdate_def pair0_def pair1_def item_a_def item_b_def item_c_def
  item_d_def srv_ok_def srv_reject_def srv_late_def

lemma pair_shown_client_fields:
  "screen pair_shown_client = pair_shown" "requests pair_shown_client = []"
  "shown_pair ''ABC'' (screen pair_shown_client) = Some pair0"
  "\<not> hasVoted (screen pair_shown_client)"
  by (simp_all add: pair_shown_client_def pair_shown_def eval_client)

lemma voted_a_fields:
  "hasVoted (screen voted_a)" "selectedItem (screen voted_a) = Some ''a''"
  "requests voted_a = [vote_request ''ABC'' ''a'' pair0]"
  "shown_pair ''ABC'' (screen voted_a) = Some pair0"
  by (simp_all add: voted_a_def pair_shown_client_def eval_client)

text \<open>
  C2, as stated: a player who has voted can vote again on the same pair, and the new
  choice replaces the old one. On the code this fails. After a vote for item a was
  accepted, a click on item b returns at the guard of \<open>handleVote\<close>: the component is
  what it was, item a stays selected and the only request sent is the one for item a.
\<close>

theorem revote_ignored_counterexample:
  "hasVoted (screen voted_a)
   \<and> selectedItem (screen voted_a) = Some ''a''
   \<and> shown_pair ''ABC'' (screen voted_a) = Some pair0
   \<and> chosen Item2 pair0 = ''b''
   \<and> step ''ABC'' (Click Item2 srv_ok) voted_a = voted_a
   \<and> selectedItem (screen (step ''ABC'' (Click Item2 srv_ok) voted_a)) \<noteq> Some ''b''
   \<and> requests (step ''ABC'' (Click Item2 srv_ok) voted_a) = [vote_request ''ABC'' ''a'' pair0]"
  by (simp only: click_guard [OF voted_a_fields(1)] voted_a_fields)
    (simp add: pair0_def item_b_def)

text \<open>
  C2, amended: once the player's vote on the presented pair is recorded (\<open>hasVoted\<close>),
  a further call of \<open>handleVote\<close>, with any item, is ignored: it sends no request,
  waits for no reply and leaves the client's state, the selected item included,
  unchanged.
\<close>

theorem handleVote_ignored_once_voted:
  assumes "hasVoted st"
  shows "handleVote_call sessionCode srv itemId (st, sent) = (st, sent, None)
       \<and> selectedItem (fst (handleVote_call sessionCode srv itemId (st, sent))) = selectedItem st
       \<and> fst (snd (handleVote_call sessionCode srv itemId (st, sent))) = sent
       \<and> (screen c = st \<longrightarrow> step sessionCode (Click choice srv) c = c)"
proof -
  have "step sessionCode (Click choice srv) c = c" if "screen c = st"
    using that assms by (simp only: click_guard)
  with assms show ?thesis by (simp add: handleVote_call_guard)
qed

theorem handleVote_ignored_once_voted_witness:
  "hasVoted (screen voted_a)
   \<and> handleVote_call ''ABC'' srv_ok ''b'' (screen voted_a, requests voted_a)
       = (screen voted_a, requests voted_a, None)
   \<and> step ''ABC'' (Click Item2 srv_ok) voted_a = voted_a"
  using voted_a_fields(1)
    handleVote_ignored_once_voted [OF voted_a_fields(1), of "''ABC''" srv_ok "''b''"
      "requests voted_a" voted_a Item2]
  by simp

lemma after_vote_c:
  "hasVoted (screen (run ''ABC'' vote_c_accepted initial_client))"
  "selectedItem (screen (run ''ABC'' vote_c_accepted initial_client)) = Some ''c''"
  "requests (run ''ABC'' vote_c_accepted initial_client)
     = [vote_request ''ABC'' ''a'' pair0, vote_request ''ABC'' ''c'' pair1]"
  "pending (run ''ABC'' vote_c_accepted initial_client) 0 = Some (Inl ())"
  "shown_pair ''ABC'' (screen (run ''ABC'' vote_c_accepted initial_client)) = Some pair1"
  by (simp_all add: vote_c_accepted_def eval_client)

text \<open>
  C5, as stated: voting twice for the same item on a presented pair, after the first vote
  was accepted, gives the same state and the same requests as voting once. On the code
  this fails when the rejection of an earlier submission arrives in between: its
  \<^verbatim>\<open>catch\<close> block clears \<open>hasVoted\<close>, and the second click on item c sends a second
  request for c on the same pair.
\<close>

theorem late_rejection_second_request_counterexample:
  "srv_late (vote_request ''ABC'' ''c'' pair1) = Inr \<lparr>data = ()\<rparr>
   \<and> chosen Item1 pair1 = ''c''
   \<and> requests (run ''ABC'' vote_c_accepted initial_client)
       = [vote_request ''ABC'' ''a'' pair0, vote_request ''ABC'' ''c'' pair1]
   \<and> shown_pair ''ABC'' (screen (run ''ABC'' late_rejection initial_client)) = Some pair1
   \<and> requests (run ''ABC'' (late_rejection @ [Click Item1 srv_late]) initial_client)
       = [vote_request ''ABC'' ''a'' pair0, vote_request ''ABC'' ''c'' pair1,
          vote_request ''ABC'' ''c'' pair1]"
  by (simp add: late_rejection_def vote_c_accepted_def eval_client)

text \<open>
  C5, amended: on a presented pair on which the player has not voted yet, when the
  submission is accepted, then after any steps that are neither a \<^verbatim>\<open>next_pair\<close>
  event nor the rejection of a waiting submission, a second click on the same item
  (whatever the server would answer) changes nothing: the component is the same as
  after the first click and those steps, and the only request added is the first vote.
\<close>

theorem second_vote_ignored_while_undisturbed:
  assumes "shown_pair sessionCode (screen c) = Some p" and "\<not> hasVoted (screen c)"
    and "srv (vote_request sessionCode (chosen choice p) p) = Inr resp"
    and "undisturbed_run sessionCode as (step sessionCode (Click choice srv) c)"
  shows "step sessionCode (Click choice srv')
             (run sessionCode as (step sessionCode (Click choice srv) c))
           = run sessionCode as (step sessionCode (Click choice srv) c)
       \<and> requests (run sessionCode as (step sessionCode (Click choice srv) c))
           = requests c @ [vote_request sessionCode (chosen choice p) p]"
proof -
  let ?c1 = "step sessionCode (Click choice srv) c"
  have c1: "hasVoted (screen ?c1)"
      "requests ?c1 = requests c @ [vote_request sessionCode (chosen choice p) p]"
    by (simp_all only: click_accepted [where srv = srv and choice = choice, OF assms(1-3)]) simp_all
  from c1(1) assms(4) have "hasVoted (screen (run sessionCode as ?c1))
       \<and> selectedItem (screen (run sessionCode as ?c1)) = selectedItem (screen ?c1)
       \<and> requests (run sessionCode as ?c1) = requests ?c1"
    by (rule undisturbed_run_keeps_vote)
  with c1(2) show ?thesis by (simp only: click_guard)
qed


theorem second_vote_ignored_while_undisturbed_witness:
  "shown_pair ''ABC'' (screen pair_shown_client) = Some pair0
   \<and> \<not> hasVoted (screen pair_shown_client)
   \<and> srv_ok (vote_request ''ABC'' (chosen Item1 pair0) pair0) = Inr \<lparr>data = ()\<rparr>
   \<and> undisturbed_run ''ABC'' [Settle 0, Message (VoteUpdate [(''a'', 1)])]
        (step ''ABC'' (Click Item1 srv_ok) pair_shown_client)
   \<and> step ''ABC'' (Click Item1 srv_ok)
        (run ''ABC'' [Settle 0, Message (VoteUpdate [(''a'', 1)])]
           (step ''ABC'' (Click Item1 srv_ok) pair_shown_client))
       = run ''ABC'' [Settle 0, Message (VoteUpdate [(''a'', 1)])]
           (step ''ABC'' (Click Item1 srv_ok) pair_shown_client)
   \<and> requests (run ''ABC'' [Settle 0, Message (VoteUpdate [(''a'', 1)])]
        (step ''ABC'' (Click Item1 srv_ok) pair_shown_client))
       = [vote_request ''ABC'' ''a'' pair0]"
proof -
  have h1: "shown_pair ''ABC'' (screen pair_shown_client) = Some pair0"
    and h2: "\<not> hasVoted (screen pair_shown_client)"
    by (rule pair_shown_client_fields)+
  have h3: "srv_ok (vote_request ''ABC'' (chosen Item1 pair0) pair0) = Inr \<lparr>data = ()\<rparr>"
    by (simp add: srv_ok_def)
  have h4: "undisturbed_run ''ABC'' [Settle 0, Message (VoteUpdate [(''a'', 1)])]
        (step ''ABC'' (Click Item1 srv_ok) pair_shown_client)"
    by (simp add: pair_shown_client_def eval_client)
  have a: "chosen Item1 pair0 = ''a''" by (simp add: pair0_def item_a_def)
  show ?thesis
    using h1 h2 h3 h4
      second_vote_ignored_while_undisturbed [where srv = srv_ok and srv' = srv_ok
        and choice = Item1, OF h1 h2 h3 h4]
    by (simp only: a pair_shown_client_fields(2) append_Nil simp_thms)
qed

text \<open>
  C8, as stated: a rejected request restores the voting state of its own call, and after
  a successful request \<open>hasVoted\<close> remains true and the chosen item remains selected.
  On the code this fails: the vote for c was accepted, and the rejection of the earlier
  vote for a, arriving afterwards, clears \<open>hasVoted\<close> and \<open>selectedItem\<close> of the vote
  for c.
\<close>

theorem late_rejection_clears_vote_counterexample:
  "srv_late (vote_request ''ABC'' ''c'' pair1) = Inr \<lparr>data = ()\<rparr>
   \<and> hasVoted (screen (run ''ABC'' vote_c_accepted initial_client))
   \<and> selectedItem (screen (run ''ABC'' vote_c_accepted initial_client)) = Some ''c''
   \<and> currentPair (screen (run ''ABC'' late_rejection initial_client)) = Some pair1
   \<and> \<not> hasVoted (screen (run ''ABC'' late_rejection initial_client))
   \<and> selectedItem (screen (run ''ABC'' late_rejection initial_client)) = None"
  by (simp add: late_rejection_def vote_c_accepted_def eval_client)

text \<open>
  C8, amended. On a presented pair on which the player has not voted yet: a rejected
  request leaves its call waiting with the rejection, and when that reply is the next
  step handled, in a reachable state, the component's state is again what it was before
  the call. Whenever a rejection is delivered, \<open>hasVoted\<close> becomes false and
  \<open>selectedItem\<close> null; a successful reply changes nothing. After a successful request
  \<open>hasVoted\<close> is true and \<open>selectedItem\<close> is the chosen item for as long as no
  \<^verbatim>\<open>next_pair\<close> event and no rejection of a waiting submission is handled.
\<close>

theorem vote_reply_effects:
  assumes "shown_pair sessionCode (screen c) = Some p" and "\<not> hasVoted (screen c)"
  shows "(srv (vote_request sessionCode (chosen choice p) p) = Inl err \<longrightarrow>
            pending (step sessionCode (Click choice srv) c) (length (requests c)) = Some (Inl err)
            \<and> (reachable sessionCode c \<longrightarrow>
                 screen (step sessionCode (Settle (length (requests c)))
                           (step sessionCode (Click choice srv) c)) = screen c))
       \<and> (pending c' k = Some (Inl err) \<longrightarrow>
            \<not> hasVoted (screen (step sessionCode (Settle k) c'))
            \<and> selectedItem (screen (step sessionCode (Settle k) c')) = None)
       \<and> (pending c' k = Some (Inr d) \<longrightarrow>
            screen (step sessionCode (Settle k) c') = screen c')
       \<and> (srv (vote_request sessionCode (chosen choice p) p) = Inr resp
            \<and> undisturbed_run sessionCode as (step sessionCode (Click choice srv) c) \<longrightarrow>
            hasVoted (screen (run sessionCode as (step sessionCode (Click choice srv) c)))
            \<and> selectedItem (screen (run sessionCode as (step sessionCode (Click choice srv) c)))
                = Some (chosen choice p))"
proof -
  let ?c1 = "step sessionCode (Click choice srv) c"
  have rej: "pending ?c1 (length (requests c)) = Some (Inl err)
      \<and> (reachable sessionCode c \<longrightarrow>
            screen (step sessionCode (Settle (length (requests c))) ?c1) = screen c)"
    if r: "srv (vote_request sessionCode (chosen choice p) p) = Inl err"
  proof -
    have restored: "(screen c)\<lparr>hasVoted := False, selectedItem := None\<rparr> = screen c"
      if "reachable sessionCode c"
    proof -
      from that assms(2) have "selectedItem (screen c) = None"
        by (rule not_voted_nothing_selected)
      with assms(2) show ?thesis by simp
    qed
    have "?c1 = c\<lparr>screen := (screen c)\<lparr>selectedItem := Some (chosen choice p), hasVoted := True\<rparr>,
             requests := requests c @ [vote_request sessionCode (chosen choice p) p],
             pending := (pending c)(length (requests c) \<mapsto> Inl err)\<rparr>"
      by (rule click_rejected [where srv = srv and choice = choice, OF assms r])
    then show ?thesis
      by (simp add: handleVote_resume_def restored del: step.simps(2))
  qed
  have acc: "hasVoted (screen (run sessionCode as ?c1))
      \<and> selectedItem (screen (run sessionCode as ?c1)) = Some (chosen choice p)"
    if a: "srv (vote_request sessionCode (chosen choice p) p) = Inr resp"
      and u: "undisturbed_run sessionCode as ?c1"
  proof -
    have c1: "hasVoted (screen ?c1)"
        "selectedItem (screen ?c1) = Some (chosen choice p)"
      by (simp_all only: click_accepted [where srv = srv and choice = choice, OF assms a]) simp_all
    from c1(1) u have "hasVoted (screen (run sessionCode as ?c1))
       \<and> selectedItem (screen (run sessionCode as ?c1)) = selectedItem (screen ?c1)
       \<and> requests (run sessionCode as ?c1) = requests ?c1"
      by (rule undisturbed_run_keeps_vote)
    with c1(2) show ?thesis by simp
  qed
  have settle_rej: "\<not> hasVoted (screen (step sessionCode (Settle k) c'))
      \<and> selectedItem (screen (step sessionCode (Settle k) c')) = None"
    if "pending c' k = Some (Inl err)"
    using that by (simp add: handleVote_resume_def)
  have settle_ok: "screen (step sessionCode (Settle k) c') = screen c'"
    if "pending c' k = Some (Inr d)"
    using that by (simp add: handleVote_resume_def)
  from rej acc settle_rej settle_ok show ?thesis by blast
qed

theorem vote_reply_effects_witness:
  "shown_pair ''ABC'' (screen pair_shown_client) = Some pair0
   \<and> \<not> hasVoted (screen pair_shown_client)
   \<and> reachable ''ABC'' pair_shown_client
   \<and> srv_reject (vote_request ''ABC'' (chosen Item1 pair0) pair0) = Inl ()
   \<and> screen (step ''ABC'' (Settle 0) (step ''ABC'' (Click Item1 srv_reject) pair_shown_client))
       = screen pair_shown_client
   \<and> pending (run ''ABC'' vote_c_accepted initial_client) 0 = Some (Inl ())
   \<and> selectedItem (screen (step ''ABC'' (Settle 0)
         (run ''ABC'' vote_c_accepted initial_client))) = None
   \<and> srv_ok (vote_request ''ABC'' (chosen Item1 pair0) pair0) = Inr \<lparr>data = ()\<rparr>
   \<and> undisturbed_run ''ABC'' [Settle 0, Message (VoteUpdate [(''a'', 1)])]
        (step ''ABC'' (Click Item1 srv_ok) pair_shown_client)
   \<and> selectedItem (screen (run ''ABC'' [Settle 0, Message (VoteUpdate [(''a'', 1)])]
        (step ''ABC'' (Click Item1 srv_ok) pair_shown_client))) = Some ''a''"
proof -
  have h1: "shown_pair ''ABC'' (screen pair_shown_client) = Some pair0"
    and h2: "\<not> hasVoted (screen pair_shown_client)"
    by (rule pair_shown_client_fields)+
  have h0: "reachable ''ABC'' pair_shown_client"
    unfolding pair_shown_client_def run.simps
    by (rule reachable_step) (rule reachable_initial)
  have r: "srv_reject (vote_request ''ABC'' (chosen Item1 pair0) pair0) = Inl ()"
    by (simp add: srv_reject_def)
  have k: "srv_ok (vote_request ''ABC'' (chosen Item1 pair0) pair0) = Inr \<lparr>data = ()\<rparr>"
    by (simp add: srv_ok_def)
  have u: "undisturbed_run ''ABC'' [Settle 0, Message (VoteUpdate [(''a'', 1)])]
        (step ''ABC'' (Click Item1 srv_ok) pair_shown_client)"
    by (simp add: pair_shown_client_def eval_client)
  have a: "chosen Item1 pair0 = ''a''" by (simp add: pair0_def item_a_def)
  have l: "length (requests pair_shown_client) = 0" by (simp add: pair_shown_client_fields)
  note t1 = vote_reply_effects [where srv = srv_reject and choice = Item1 and err = "()"
      and c' = "run ''ABC'' vote_c_accepted initial_client" and k = 0, OF h1 h2]
  note t2 = vote_reply_effects [where srv = srv_ok and choice = Item1
      and resp = "\<lparr>data = ()\<rparr>" and as = "[Settle 0, Message (VoteUpdate [(''a'', 1)])]",
      OF h1 h2]
  from t1 r h0 l have p1: "screen (step ''ABC'' (Settle 0)
        (step ''ABC'' (Click Item1 srv_reject) pair_shown_client)) = screen pair_shown_client"
    by (simp del: step.simps)
  from t1 after_vote_c(4) have p2: "selectedItem (screen (step ''ABC'' (Settle 0)
         (run ''ABC'' vote_c_accepted initial_client))) = None"
    by (simp del: step.simps)
  note d = t2 [THEN conjunct2, THEN conjunct2, THEN conjunct2, THEN mp, OF conjI [OF k u]]
  from d [THEN conjunct2]
  have p3: "selectedItem (screen (run ''ABC''
        [Settle 0, Message (VoteUpdate [(''a'', 1)])]
        (step ''ABC'' (Click Item1 srv_ok) pair_shown_client))) = Some ''a''"
    by (simp only: a)
  from h1 h2 h0 r k u p1 p2 p3 after_vote_c(4) show ?thesis by (simp only: simp_thms)
qed

section \<open>Vote counts on the game screen\<close>

lemma receive_all_append:
  "receive_all (evs @ evs') st = receive_all evs' (receive_all evs st)"
  by (induction evs arbitrary: st) simp_all

lemma onmessage_voteCounts_cong:
  "voteCounts st = voteCounts st' \<Longrightarrow>
   voteCounts (onmessage TournamentGame_options ev st)
     = voteCounts (onmessage TournamentGame_options ev st')"
  by (cases ev)
    (simp_all add: TournamentGame_options_def optional_call_def optional_call0_def
      TournamentGame_onNextPair_def TournamentGame_onVoteUpdate_def
      TournamentGame_onGameComplete_def)

lemma receive_all_voteCounts_cong:
  "voteCounts st = voteCounts st' \<Longrightarrow>
   voteCounts (receive_all evs st) = voteCounts (receive_all evs st')"
proof (induction evs arbitrary: st st')
  case Nil
  then show ?case by simp
next
  case (Cons ev evs)
  from Cons.prems have "voteCounts (onmessage TournamentGame_options ev st)
      = voteCounts (onmessage TournamentGame_options ev st')"
    by (rule onmessage_voteCounts_cong)
  then have "voteCounts (receive_all evs (onmessage TournamentGame_options ev st))
      = voteCounts (receive_all evs (onmessage TournamentGame_options ev st'))"
    by (rule Cons.IH)
  then show ?case by (simp only: receive_all.simps)
qed

text \<open>
  C4. Whatever events came before and whatever state they left, handling a
  \<^verbatim>\<open>next_pair\<close> event resets the vote state: \<open>voteCounts\<close> is empty, \<open>hasVoted\<close> is
  false, \<open>selectedItem\<close> is null, the new pair is the current one and neither card shows
  a tally. The counts held after any later events are those that the same later events
  produce from a fresh screen: no tally received before the \<^verbatim>\<open>next_pair\<close> survives it.
\<close>

theorem next_pair_resets_vote_state:
  "voteCounts (receive_all (evs @ [NextPair p]) st) = []
   \<and> hasVoted (receive_all (evs @ [NextPair p]) st) = False
   \<and> selectedItem (receive_all (evs @ [NextPair p]) st) = None
   \<and> currentPair (receive_all (evs @ [NextPair p]) st) = Some p
   \<and> card_tally (render_card (receive_all (evs @ [NextPair p]) st) (item1 p)) = None
   \<and> card_tally (render_card (receive_all (evs @ [NextPair p]) st) (item2 p)) = None
   \<and> voteCounts (receive_all (evs @ NextPair p # later) st)
       = voteCounts (receive_all (NextPair p # later) initial_game_state)"
proof -
  have now: "receive_all (evs @ [NextPair p]) st
      = TournamentGame_onNextPair p (receive_all evs st)"
    by (simp add: receive_all_append TournamentGame_options_def optional_call_def)
  have "receive_all (evs @ NextPair p # later) st
      = receive_all later (TournamentGame_onNextPair p (receive_all evs st))"
    by (simp add: receive_all_append TournamentGame_options_def optional_call_def)
  moreover have "receive_all (NextPair p # later) initial_game_state
      = receive_all later (TournamentGame_onNextPair p initial_game_state)"
    by (simp add: TournamentGame_options_def optional_call_def)
  moreover have
    "voteCounts (receive_all later (TournamentGame_onNextPair p (receive_all evs st)))
      = voteCounts (receive_all later (TournamentGame_onNextPair p initial_game_state))"
    by (rule receive_all_voteCounts_cong) (simp add: TournamentGame_onNextPair_def)
  ultimately have later: "voteCounts (receive_all (evs @ NextPair p # later) st)
      = voteCounts (receive_all (NextPair p # later) initial_game_state)"
    by (simp only:)
  have fields: "voteCounts (TournamentGame_onNextPair p (receive_all evs st)) = []"
      "hasVoted (TournamentGame_onNextPair p (receive_all evs st)) = False"
      "selectedItem (TournamentGame_onNextPair p (receive_all evs st)) = None"
      "currentPair (TournamentGame_onNextPair p (receive_all evs st)) = Some p"
    by (simp_all add: TournamentGame_onNextPair_def)
  have cards:
    "card_tally (render_card (TournamentGame_onNextPair p (receive_all evs st)) (item1 p)) = None"
    "card_tally (render_card (TournamentGame_onNextPair p (receive_all evs st)) (item2 p)) = None"
    by (simp_all add: render_card_def fields)
  from later fields cards show ?thesis by (simp only: now simp_thms)
qed

theorem next_pair_resets_vote_state_witness:
  "voteCounts (receive_all ([VoteUpdate [(''a'', 2), (''b'', 1)]] @ [NextPair pair0])
       (screen voted_a)) = []
   \<and> voteCounts (receive_all ([VoteUpdate [(''a'', 2), (''b'', 1)]]
        @ NextPair pair0 # [VoteUpdate [(''a'', 1)]]) (screen voted_a)) = [(''a'', 1)]"
  using next_pair_resets_vote_state [of "[VoteUpdate [(''a'', 2), (''b'', 1)]]" pair0
      "screen voted_a" "[VoteUpdate [(''a'', 1)]]"]
  by (simp add: TournamentGame_options_def optional_call_def TournamentGame_onNextPair_def
      TournamentGame_onVoteUpdate_def initial_game_state_def)

section \<open>The completed game\<close>

text \<open>
  C7, as stated: once a \<^verbatim>\<open>game_complete\<close> event has been handled, no later event, a
  second \<^verbatim>\<open>game_complete\<close> included, changes the completed-game view. On the code this
  fails: a second \<^verbatim>\<open>game_complete\<close> with another payload replaces the results shown.
\<close>

theorem second_game_complete_counterexample:
  "render ''ABC'' (receive_all [GameComplete results_a] initial_game_state)
     = GameCompleteView results_a ''ABC''
   \<and> render ''ABC''
        (receive_all [GameComplete results_a, GameComplete results_b] initial_game_state)
     = GameCompleteView results_b ''ABC''
   \<and> GameCompleteView results_b ''ABC'' \<noteq> GameCompleteView results_a ''ABC''"
  by (simp add: render_def TournamentGame_options_def optional_call_def
      TournamentGame_onGameComplete_def initial_game_state_def results_a_def results_b_def
      item_a_def item_b_def)

lemma onmessage_completed:
  assumes "showGameComplete st" and "gameResults st = Some r"
  shows "showGameComplete (onmessage TournamentGame_options ev st)
       \<and> gameResults (onmessage TournamentGame_options ev st) = Some (last_results r [ev])"
  using assms
  by (cases ev)
    (simp_all add: TournamentGame_options_def optional_call_def optional_call0_def
      TournamentGame_onNextPair_def TournamentGame_onVoteUpdate_def
      TournamentGame_onGameComplete_def)

lemma last_results_Cons: "last_results r (ev # evs) = last_results (last_results r [ev]) evs"
  by (cases ev) simp_all

lemma receive_all_completed:
  "showGameComplete st \<Longrightarrow> gameResults st = Some r \<Longrightarrow>
   showGameComplete (receive_all evs st)
   \<and> gameResults (receive_all evs st) = Some (last_results r evs)"
proof (induction evs arbitrary: st r)
  case Nil
  then show ?case by simp
next
  case (Cons ev evs)
  from Cons.prems have step: "showGameComplete (onmessage TournamentGame_options ev st)
      \<and> gameResults (onmessage TournamentGame_options ev st) = Some (last_results r [ev])"
    by (rule onmessage_completed)
  then have "showGameComplete (receive_all evs (onmessage TournamentGame_options ev st))
      \<and> gameResults (receive_all evs (onmessage TournamentGame_options ev st))
          = Some (last_results (last_results r [ev]) evs)"
    by (intro Cons.IH) simp_all
  then show ?case by (simp only: receive_all.simps last_results_Cons [of r ev evs])
qed

lemma last_results_no_game_complete:
  "\<forall>ev \<in> set evs. event_type ev \<noteq> Some ''game_complete'' \<Longrightarrow> last_results r evs = r"
  by (induction r evs rule: last_results.induct) simp_all

text \<open>
  C7, amended: once a \<^verbatim>\<open>game_complete\<close> event has been handled, the completed-game
  view stays on screen after every later sequence of events, and it shows the results of
  the most recent \<^verbatim>\<open>game_complete\<close> event; later events of every other kind leave the
  view as it is.
\<close>

theorem game_complete_view_persists:
  "render sessionCode
      (receive_all evs (onmessage TournamentGame_options (GameComplete r) st))
     = GameCompleteView (last_results r evs) sessionCode
   \<and> ((\<forall>ev \<in> set evs. event_type ev \<noteq> Some ''game_complete'') \<longrightarrow>
        render sessionCode
          (receive_all evs (onmessage TournamentGame_options (GameComplete r) st))
        = render sessionCode (onmessage TournamentGame_options (GameComplete r) st))"
proof -
  let ?st = "onmessage TournamentGame_options (GameComplete r) st"
  have "showGameComplete ?st" and "gameResults ?st = Some r"
    by (simp_all add: TournamentGame_options_def optional_call_def
        TournamentGame_onGameComplete_def)
  then have "showGameComplete (receive_all evs ?st)
      \<and> gameResults (receive_all evs ?st) = Some (last_results r evs)"
    by (rule receive_all_completed)
  then have view: "render sessionCode (receive_all evs ?st)
      = GameCompleteView (last_results r evs) sessionCode"
    by (simp add: render_def)
  have "render sessionCode ?st = GameCompleteView r sessionCode"
    by (simp add: render_def TournamentGame_options_def optional_call_def
        TournamentGame_onGameComplete_def)
  with view show ?thesis by (simp add: last_results_no_game_complete)
qed

theorem game_complete_view_persists_witness:
  "event_type (NextPair pair0) \<noteq> Some ''game_complete''
   \<and> event_type (VoteUpdate [(''a'', 1)]) \<noteq> Some ''game_complete''
   \<and> event_type (RoundComplete 1) \<noteq> Some ''game_complete''
   \<and> render ''ABC''
        (receive_all [NextPair pair0, VoteUpdate [(''a'', 1)], RoundComplete 1]
           (onmessage TournamentGame_options (GameComplete results_a) initial_game_state))
      = GameCompleteView results_a ''ABC''
   \<and> render ''ABC''
        (receive_all [GameComplete results_b]
           (onmessage TournamentGame_options (GameComplete results_a) initial_game_state))
      = GameCompleteView results_b ''ABC''"
proof -
  have h: "\<forall>ev \<in> set [NextPair pair0, VoteUpdate [(''a'', 1)], RoundComplete 1].
       event_type ev \<noteq> Some ''game_complete''" by simp
  show ?thesis
    using h
      game_complete_view_persists [of "''ABC''"
         "[NextPair pair0, VoteUpdate [(''a'', 1)], RoundComplete 1]"
         results_a initial_game_state]
      game_complete_view_persists [of "''ABC''" "[GameComplete results_b]" results_a
         initial_game_state]
    by simp
qed

section \<open>Rounding to double precision\<close>

lemma floor_log2_bounds:
  "0 < n \<Longrightarrow> 2 ^ floor_log2 n \<le> n \<and> n < 2 ^ Suc (floor_log2 n)"
proof (induction n rule: floor_log2.induct)
  case (1 n)
  show ?case
  proof (cases "n < 2")
    case True
    with 1(2) have "n = 1" by simp
    then show ?thesis by (simp add: floor_log2.simps)
  next
    case False
    then have pos: "0 < n div 2" by simp
    from 1(1) [OF False pos]
    have ih: "2 ^ floor_log2 (n div 2) \<le> n div 2" "n div 2 < 2 ^ Suc (floor_log2 (n div 2))"
      by simp_all
    have eq: "floor_log2 n = Suc (floor_log2 (n div 2))"
      using False by (subst floor_log2.simps) simp
    from ih show ?thesis unfolding eq by simp linarith
  qed
qed

lemma pow2_le_of_nat: "2 ^ k \<le> n \<Longrightarrow> (2::rat) ^ k \<le> of_nat n"
proof -
  assume "2 ^ k \<le> n"
  then have "(of_nat (2 ^ k) :: rat) \<le> of_nat n" by (simp only: of_nat_le_iff)
  then show ?thesis by simp
qed

lemma of_nat_le_pow2: "n \<le> 2 ^ k \<Longrightarrow> (of_nat n :: rat) \<le> 2 ^ k"
proof -
  assume "n \<le> 2 ^ k"
  then have "(of_nat n :: rat) \<le> of_nat (2 ^ k)" by (simp only: of_nat_le_iff)
  then show ?thesis by simp
qed

lemma of_nat_less_pow2: "n < 2 ^ k \<Longrightarrow> (of_nat n :: rat) < 2 ^ k"
proof -
  assume "n < 2 ^ k"
  then have "(of_nat n :: rat) < of_nat (2 ^ k)" by (simp only: of_nat_less_iff)
  then show ?thesis by simp
qed

lemma exponent_bounds:
  assumes "0 < x"
  shows "2 powi exponent x \<le> x \<and> x < 2 powi (exponent x + 1)"
proof (cases "1 \<le> x")
  case True
  define n where "n = nat \<lfloor>x\<rfloor>"
  from True have n1: "0 < n" by (simp add: n_def)
  from True have lo: "of_nat n \<le> x" and hi: "x < of_nat n + 1"
    by (simp_all add: n_def) linarith+
  from floor_log2_bounds [OF n1]
  have b: "2 ^ floor_log2 n \<le> n" "n + 1 \<le> 2 ^ Suc (floor_log2 n)" by simp_all
  have ex: "exponent x = int (floor_log2 n)" using True by (simp add: exponent_def n_def)
  have "(2::rat) ^ floor_log2 n \<le> of_nat n"
    using b(1) by (rule pow2_le_of_nat)
  from this lo have "(2::rat) ^ floor_log2 n \<le> x" by (rule order_trans)
  then have 1: "(2::rat) powi exponent x \<le> x" by (simp only: ex power_int_of_nat)
  have "of_nat n + 1 \<le> (2::rat) ^ Suc (floor_log2 n)"
    using of_nat_le_pow2 [OF b(2)] by simp
  with hi have "x < (2::rat) ^ Suc (floor_log2 n)" by simp
  moreover have "exponent x + 1 = int (Suc (floor_log2 n))" by (simp add: ex)
  ultimately have 2: "x < 2 powi (exponent x + 1)" by (simp only: power_int_of_nat)
  from 1 2 show ?thesis ..
next
  case False
  define u where "u = 1 / x"
  define m where "m = nat \<lceil>u\<rceil> - 1"
  from False assms have u1: "1 < u" by (simp add: u_def)
  then have c2: "2 \<le> \<lceil>u\<rceil>" by linarith
  then have m1: "0 < m" by (simp add: m_def)
  have mu: "of_nat m < u" and um: "u \<le> of_nat m + 1"
    using c2 by (simp_all add: m_def) linarith+
  from floor_log2_bounds [OF m1]
  have b: "2 ^ floor_log2 m \<le> m" "m + 1 \<le> 2 ^ Suc (floor_log2 m)" by simp_all
  have ex: "exponent x = - int (Suc (floor_log2 m))"
    using False by (simp add: exponent_def m_def u_def)
  have "of_nat m + 1 \<le> (2::rat) ^ Suc (floor_log2 m)"
    using of_nat_le_pow2 [OF b(2)] by simp
  with um have "u \<le> 2 ^ Suc (floor_log2 m)" by simp
  then have "1 / 2 ^ Suc (floor_log2 m) \<le> x"
    using assms by (simp add: u_def field_simps)
  then have 1: "2 powi exponent x \<le> x"
    by (simp only: ex power_int_minus power_int_of_nat) (simp add: field_simps)
  have "(2::rat) ^ floor_log2 m \<le> of_nat m"
    using b(1) by (rule pow2_le_of_nat)
  from this mu have "2 ^ floor_log2 m < u" by (rule le_less_trans)
  then have "x < 1 / 2 ^ floor_log2 m"
    using assms by (simp add: u_def field_simps)
  moreover have "exponent x + 1 = - int (floor_log2 m)" by (simp add: ex)
  ultimately have 2: "x < 2 powi (exponent x + 1)"
    by (simp only: power_int_minus power_int_of_nat) (simp add: field_simps)
  from 1 2 show ?thesis ..
qed

lemma exponent_less: "0 < x \<Longrightarrow> x < 2 powi k \<Longrightarrow> exponent x < k"
proof (rule ccontr)
  assume x: "0 < x" "x < 2 powi k" and "\<not> exponent x < k"
  then have "k \<le> exponent x" by simp
  then have "(2::rat) powi k \<le> 2 powi exponent x" by (intro power_int_increasing) simp_all
  with exponent_bounds [OF x(1)] x(2) show False by simp
qed

lemma exponent_ge: "0 < x \<Longrightarrow> 2 powi k \<le> x \<Longrightarrow> k \<le> exponent x"
proof (rule ccontr)
  assume x: "0 < x" "2 powi k \<le> x" and "\<not> k \<le> exponent x"
  then have "exponent x + 1 \<le> k" by simp
  then have "(2::rat) powi (exponent x + 1) \<le> 2 powi k" by (intro power_int_increasing) simp_all
  with exponent_bounds [OF x(1)] x(2) show False by simp
qed

lemma exponent_mono: "0 < x \<Longrightarrow> x \<le> y \<Longrightarrow> exponent x \<le> exponent y"
proof -
  assume x: "0 < x" "x \<le> y"
  with exponent_bounds [of x] have "2 powi exponent x \<le> y" by simp
  with x show ?thesis by (intro exponent_ge) simp_all
qed

lemma round_half_even_cases:
  "round_half_even z = \<lfloor>z\<rfloor> \<or> round_half_even z = \<lfloor>z\<rfloor> + 1"
  by (simp add: round_half_even_def Let_def)

lemma round_half_even_upper: "of_int (round_half_even z) \<le> z + 1 / 2"
  by (simp add: round_half_even_def Let_def) linarith

lemma round_half_even_lower: "z - 1 / 2 \<le> of_int (round_half_even z)"
  by (simp add: round_half_even_def Let_def) linarith

lemma round_half_even_of_int [simp]: "round_half_even (of_int k) = k"
  by (simp add: round_half_even_def)

lemma round_half_even_mono: "z \<le> w \<Longrightarrow> round_half_even z \<le> round_half_even w"
proof -
  assume zw: "z \<le> w"
  then have fl: "\<lfloor>z\<rfloor> \<le> \<lfloor>w\<rfloor>" by (rule floor_mono)
  show ?thesis
  proof (cases "\<lfloor>z\<rfloor> = \<lfloor>w\<rfloor>")
    case True
    with zw show ?thesis by (auto simp: round_half_even_def Let_def)
  next
    case False
    with fl have "\<lfloor>z\<rfloor> + 1 \<le> \<lfloor>w\<rfloor>" by simp
    moreover have "round_half_even z \<le> \<lfloor>z\<rfloor> + 1"
      using round_half_even_cases [of z] by auto
    moreover have "\<lfloor>w\<rfloor> \<le> round_half_even w"
      using round_half_even_cases [of w] by auto
    ultimately show ?thesis by linarith
  qed
qed

lemma round_half_even_nonneg: "0 \<le> z \<Longrightarrow> 0 \<le> round_half_even z"
  using round_half_even_mono [of 0 z] round_half_even_of_int [of 0] by simp

lemma ulp_exponent_mono: "0 < x \<Longrightarrow> x \<le> y \<Longrightarrow> ulp_exponent x \<le> ulp_exponent y"
  using exponent_mono [of x y] by (simp add: ulp_exponent_def)

lemma round_to_double_pos:
  "0 < x \<Longrightarrow>
   round_to_double x = of_int (round_half_even (x / 2 powi ulp_exponent x)) * 2 powi ulp_exponent x"
  by (simp add: round_to_double_def)

lemma round_to_double_nonneg: "0 \<le> round_to_double x"
proof (cases "0 < x")
  case True
  then have "0 \<le> x / 2 powi ulp_exponent x" by simp
  then have "0 \<le> round_half_even (x / 2 powi ulp_exponent x)" by (rule round_half_even_nonneg)
  with True show ?thesis by (simp add: round_to_double_pos)
next
  case False
  then show ?thesis by (simp add: round_to_double_def)
qed

text \<open>A value on the grid of x that bounds x also bounds the rounded x.\<close>

lemma round_to_double_le_grid:
  assumes "0 < x" and "x \<le> of_int K * 2 powi ulp_exponent x"
  shows "round_to_double x \<le> of_int K * 2 powi ulp_exponent x"
proof -
  have p: "(0::rat) < 2 powi ulp_exponent x" by simp
  from assms(2) p have "x / 2 powi ulp_exponent x \<le> of_int K"
    by (simp add: pos_divide_le_eq)
  then have "round_half_even (x / 2 powi ulp_exponent x) \<le> K"
    using round_half_even_mono [of "x / 2 powi ulp_exponent x" "of_int K"] by simp
  then have "(of_int (round_half_even (x / 2 powi ulp_exponent x)) :: rat) \<le> of_int K"
    by simp
  with p show ?thesis
    by (simp only: round_to_double_pos [OF assms(1)] mult_le_cancel_right_pos)
qed

lemma round_to_double_ge_grid:
  assumes "0 < x" and "of_int K * 2 powi ulp_exponent x \<le> x"
  shows "of_int K * 2 powi ulp_exponent x \<le> round_to_double x"
proof -
  have p: "(0::rat) < 2 powi ulp_exponent x" by simp
  from assms(2) p have "of_int K \<le> x / 2 powi ulp_exponent x"
    by (simp add: pos_le_divide_eq)
  then have "K \<le> round_half_even (x / 2 powi ulp_exponent x)"
    using round_half_even_mono [of "of_int K" "x / 2 powi ulp_exponent x"] by simp
  then have "(of_int K :: rat) \<le> of_int (round_half_even (x / 2 powi ulp_exponent x))"
    by simp
  with p show ?thesis
    by (simp only: round_to_double_pos [OF assms(1)] mult_le_cancel_right_pos)
qed

lemma power_int_as_grid:
  assumes "e \<le> k"
  shows "(2::rat) powi k = of_int (2 ^ nat (k - e)) * 2 powi e"
proof -
  have "(2::rat) powi k = 2 powi (k - e) * 2 powi e"
    by (simp add: power_int_add [symmetric])
  also from assms have "(2::rat) powi (k - e) = 2 ^ nat (k - e)"
    by (simp add: power_int_def)
  finally show ?thesis by simp
qed

lemma round_to_double_mono:
  assumes "x \<le> y"
  shows "round_to_double x \<le> round_to_double y"
proof (cases "0 < x")
  case False
  then have "round_to_double x = 0" by (simp add: round_to_double_def)
  then show ?thesis by (simp add: round_to_double_nonneg)
next
  case True
  with assms have ypos: "0 < y" by simp
  from True assms have ee: "ulp_exponent x \<le> ulp_exponent y" by (rule ulp_exponent_mono)
  show ?thesis
  proof (cases "ulp_exponent x = ulp_exponent y")
    case True
    have p: "(0::rat) < 2 powi ulp_exponent y" by simp
    from assms p have "x / 2 powi ulp_exponent y \<le> y / 2 powi ulp_exponent y"
      by (simp add: divide_right_mono)
    then have "round_half_even (x / 2 powi ulp_exponent y)
        \<le> round_half_even (y / 2 powi ulp_exponent y)"
      by (rule round_half_even_mono)
    then have "(of_int (round_half_even (x / 2 powi ulp_exponent y)) :: rat)
        \<le> of_int (round_half_even (y / 2 powi ulp_exponent y))" by simp
    with p show ?thesis
      by (simp only: round_to_double_pos [OF \<open>0 < x\<close>] round_to_double_pos [OF ypos] True
          mult_le_cancel_right_pos)
  next
    case False
    with ee have lt: "ulp_exponent x < ulp_exponent y" by simp
    define L where "L = exponent y"
    from lt have ey: "ulp_exponent y = L - 52"
      by (auto simp: ulp_exponent_def L_def max_def split: if_splits)
    from lt ey have "exponent x - 52 < L - 52" by (simp add: ulp_exponent_def)
    then have "exponent x + 1 \<le> L" by simp
    then have "(2::rat) powi (exponent x + 1) \<le> 2 powi L"
      by (intro power_int_increasing) simp_all
    with exponent_bounds [OF \<open>0 < x\<close>] have xB: "x \<le> 2 powi L" by simp
    from exponent_bounds [OF ypos] have By: "2 powi L \<le> y" by (simp add: L_def)
    from lt ey have "ulp_exponent x \<le> L" by simp
    then have gx: "(2::rat) powi L = of_int (2 ^ nat (L - ulp_exponent x)) * 2 powi ulp_exponent x"
      by (rule power_int_as_grid)
    have "ulp_exponent y \<le> L" by (simp add: ey)
    then have gy: "(2::rat) powi L = of_int (2 ^ nat (L - ulp_exponent y)) * 2 powi ulp_exponent y"
      by (rule power_int_as_grid)
    have "round_to_double x \<le> 2 powi L"
      using round_to_double_le_grid [OF \<open>0 < x\<close>, of "2 ^ nat (L - ulp_exponent x)"] xB gx
      by simp
    moreover have "2 powi L \<le> round_to_double y"
      using round_to_double_ge_grid [OF ypos, of "2 ^ nat (L - ulp_exponent y)"] By gy
      by simp
    ultimately show ?thesis by simp
  qed
qed

lemma round_to_double_on_grid:
  assumes "0 < x" and "x = of_int K * 2 powi ulp_exponent x"
  shows "round_to_double x = x"
proof -
  have "x / 2 powi ulp_exponent x = of_int K"
    by (subst assms(2)) simp
  then show ?thesis
    using assms(2) by (simp add: round_to_double_pos [OF assms(1)])
qed

lemma round_to_double_of_nat:
  assumes "n < 2 ^ 53"
  shows "round_to_double (of_nat n) = of_nat n"
proof (cases "n = 0")
  case True
  then show ?thesis by (simp add: round_to_double_def)
next
  case False
  then have pos: "(0::rat) < of_nat n" by simp
  from assms have "(of_nat n :: rat) < 2 ^ 53" by (rule of_nat_less_pow2)
  then have "(of_nat n :: rat) < 2 powi 53" by simp
  with pos have "exponent (of_nat n) < 53" by (rule exponent_less)
  then have e0: "ulp_exponent (of_nat n) \<le> 0" by (simp add: ulp_exponent_def)
  define d where "d = nat (- ulp_exponent (of_nat n))"
  from e0 have ed: "ulp_exponent (of_nat n) = - int d" by (simp add: d_def)
  have "(of_nat n :: rat) = of_int (int n * 2 ^ d) * 2 powi ulp_exponent (of_nat n)"
    by (simp add: ed power_int_minus)
  with pos show ?thesis by (rule round_to_double_on_grid)
qed

lemma to_double_of_nat: "n < 2 ^ 53 \<Longrightarrow> to_double (of_nat n) = Finite (of_nat n)"
proof -
  assume n: "n < 2 ^ 53"
  then have "(of_nat n :: rat) < 2 ^ 53" by (rule of_nat_less_pow2)
  moreover have "(2::rat) ^ 53 < 2 ^ 1024" by simp
  ultimately have "(of_nat n :: rat) < 2 ^ 1024" by (rule less_trans)
  with n show ?thesis by (simp add: to_double_def round_to_double_of_nat)
qed

lemma to_double_cases:
  "to_double x = Infinity \<or> to_double x = Finite (round_to_double x)"
  by (simp add: to_double_def Let_def)



section \<open>Vote percentages\<close>

lemma floor_numeral_quotient:
  "\<lfloor>numeral a / numeral b :: rat\<rfloor> = numeral a div numeral b"
  using floor_divide_of_int_eq [of "numeral a" "numeral b", where ?'a = rat] by simp

lemma ceiling_numeral_quotient:
  "\<lceil>numeral a / numeral b :: rat\<rceil> = - ((- numeral a) div numeral b)"
proof -
  have "\<lceil>numeral a / numeral b :: rat\<rceil>
      = - \<lfloor>of_int (- numeral a) / of_int (numeral b) :: rat\<rfloor>"
    by (simp add: ceiling_def)
  then show ?thesis by (simp only: floor_divide_of_int_eq)
qed

lemmas eval_double = to_double_def round_to_double_def ulp_exponent_def exponent_def
  floor_numeral_quotient ceiling_numeral_quotient floor_log2.simps
  round_half_even_def Let_def power_int_minus

lemma ex57: "getVotePercentage [(''a'', 23), (''b'', 17)] ''a'' = Finite 57"
  by (simp add: getVotePercentage_def Object_values_def get_property_def or_zero_def eval_double)

lemma exNaN: "getVotePercentage [(''a'', 1)] ''toString'' = NaN"
  by (simp add: getVotePercentage_def Object_values_def get_property_def or_zero_def
      Object_prototype_keys_def eval_double)

lemma ex33: "getVotePercentage [(''a'', 1), (''b'', 2)] ''a'' = Finite 33"
  by (simp add: getVotePercentage_def Object_values_def get_property_def or_zero_def eval_double)





lemma floor_one_half [simp]: "\<lfloor>1 / 2 :: rat\<rfloor> = 0"
  by (simp add: floor_eq_iff)

lemma to_double_zero: "to_double 0 = Finite 0"
  by (simp add: to_double_def round_to_double_def)








section \<open>Starting a session\<close>

text \<open>
  C3. For a session in Lobby, the start action fails with PreconditionFailed when fewer
  than 2 players have joined and succeeds, moving the session to InProgress, when 2 or
  more have. On the lobby screen, once loaded, the organizer's Start Game button is
  enabled if and only if the player list has at least 2 entries.
\<close>

theorem start_needs_two_players:
  assumes "status s = Lobby" and "\<not> loading st" and "isOrganizer st"
  shows "(length (roster s) < 2 \<longrightarrow> start s = Inl PreconditionFailed)
       \<and> (2 \<le> length (roster s) \<longrightarrow>
            start s = Inr (s\<lparr>status := InProgress, currentRoundNumber := 1,
                              currentPairIndex := 0\<rparr>))
       \<and> (start_enabled st \<longleftrightarrow> 2 \<le> length (players st))"
  using assms by (auto simp: start_def start_enabled_def render_lobby_def)

theorem start_needs_two_players_witness:
  "status (lobby_session [player_ann]) = Lobby
   \<and> \<not> loading (organizer_lobby [player_ann]) \<and> isOrganizer (organizer_lobby [player_ann])
   \<and> start (lobby_session [player_ann]) = Inl PreconditionFailed
   \<and> \<not> start_enabled (organizer_lobby [player_ann])
   \<and> status (lobby_session [player_ann, player_bob]) = Lobby
   \<and> \<not> loading (organizer_lobby [player_ann, player_bob])
   \<and> isOrganizer (organizer_lobby [player_ann, player_bob])
   \<and> (\<exists>s'. start (lobby_session [player_ann, player_bob]) = Inr s' \<and> status s' = InProgress)
   \<and> start_enabled (organizer_lobby [player_ann, player_bob])"
proof -
  have a1: "status (lobby_session [player_ann]) = Lobby" by (simp add: lobby_session_def)
  have a2: "\<not> loading (organizer_lobby [player_ann])" by (simp add: organizer_lobby_def)
  have a3: "isOrganizer (organizer_lobby [player_ann])" by (simp add: organizer_lobby_def)
  have b1: "status (lobby_session [player_ann, player_bob]) = Lobby"
    by (simp add: lobby_session_def)
  have b2: "\<not> loading (organizer_lobby [player_ann, player_bob])"
    by (simp add: organizer_lobby_def)
  have b3: "isOrganizer (organizer_lobby [player_ann, player_bob])"
    by (simp add: organizer_lobby_def)
  have l1: "length (roster (lobby_session [player_ann])) = 1"
    and l2: "length (players (organizer_lobby [player_ann])) = 1"
    and l3: "length (roster (lobby_session [player_ann, player_bob])) = 2"
    and l4: "length (players (organizer_lobby [player_ann, player_bob])) = 2"
    by (simp_all add: lobby_session_def organizer_lobby_def)
  show ?thesis
    using a1 a2 a3 b1 b2 b3 l1 l2 l3 l4
      start_needs_two_players [OF a1 a2 a3] start_needs_two_players [OF b1 b2 b3]
    by simp
qed

section \<open>Duration formatting\<close>

lemma digit_cases: "d < 10 \<Longrightarrow> d \<in> {0,1,2,3,4,5,6,7,8,9::nat}"
  by auto

lemma digit_char_is_digit: "d < 10 \<Longrightarrow> is_digit (digit_char d)"
  using digit_cases [of d] by (auto simp: is_digit_def digit_char_def)

lemma digit_value_digit_char: "d < 10 \<Longrightarrow> digit_value (digit_char d) = d"
  using digit_cases [of d] by (auto simp: digit_value_def digit_char_def)

lemma digit_char_zero: "d < 10 \<Longrightarrow> digit_char d = CHR ''0'' \<longleftrightarrow> d = 0"
  using digit_cases [of d] by (auto simp: digit_char_def)

lemma decimal_value_snoc:
  "decimal_value (str @ [c]) = 10 * decimal_value str + digit_value c"
  by (simp add: decimal_value_def)

lemma decimal_nonempty: "decimal n \<noteq> []"
  by (subst decimal.simps) simp

lemma decimal_digits: "list_all is_digit (decimal n)"
proof (induction n rule: decimal.induct)
  case (1 n)
  show ?case
  proof (cases "n < 10")
    case True
    then show ?thesis by (subst decimal.simps) (simp add: digit_char_is_digit)
  next
    case False
    with 1 show ?thesis by (subst decimal.simps) (simp add: digit_char_is_digit)
  qed
qed

lemma decimal_value_decimal: "decimal_value (decimal n) = n"
proof (induction n rule: decimal.induct)
  case (1 n)
  show ?case
  proof (cases "n < 10")
    case True
    then show ?thesis
      by (subst decimal.simps) (simp add: decimal_value_def digit_value_digit_char)
  next
    case False
    with 1 show ?thesis
      by (subst decimal.simps) (simp add: decimal_value_snoc digit_value_digit_char)
  qed
qed

lemma decimal_hd: "hd (decimal n) = CHR ''0'' \<Longrightarrow> n = 0"
proof (induction n rule: decimal.induct)
  case (1 n)
  show ?case
  proof (cases "n < 10")
    case True
    with 1(2) show ?thesis
      by (subst (asm) decimal.simps) (simp add: digit_char_zero)
  next
    case False
    with 1(2) have "hd (decimal (n div 10)) = CHR ''0''"
      by (subst (asm) decimal.simps) (simp add: decimal_nonempty)
    with 1(1) False have "n div 10 = 0" by simp
    with False show ?thesis by simp
  qed
qed

lemma decimal_zero: "decimal 0 = ''0''"
  by (subst decimal.simps) (simp add: digit_char_def)

lemma decimal_canonical: "canonical_decimal (decimal n)"
  using decimal_hd [of n] decimal_zero
  by (auto simp: canonical_decimal_def decimal_nonempty decimal_digits)

lemma decimal_length_digit: "n < 10 \<Longrightarrow> length (decimal n) = 1"
  by (subst decimal.simps) simp

lemma decimal_length_le2: "n < 100 \<Longrightarrow> length (decimal n) \<le> 2"
proof (cases "n < 10")
  case True
  then show ?thesis by (simp add: decimal_length_digit)
next
  case False
  assume "n < 100"
  then have "n div 10 < 10" by simp
  with False show ?thesis
    by (subst decimal.simps) (simp add: decimal_length_digit)
qed

lemma padStart_length: "length str \<le> n \<Longrightarrow> length (padStart n c str) = n"
  by (simp add: padStart_def)

lemma decimal_value_replicate_zero:
  "decimal_value (replicate k (CHR ''0'') @ str) = decimal_value str"
  by (induction k) (simp_all add: decimal_value_def digit_value_def)

lemma replicate_zero_digits: "list_all is_digit (replicate k (CHR ''0''))"
  by (induction k) (simp_all add: is_digit_def)

lemma js_rem_of_nat:
  "js_rem (Finite (of_nat n)) (Finite 60) = Finite (of_nat (n mod 60))"
proof -
  have "\<lfloor>(of_nat n :: rat) / of_nat 60\<rfloor> = of_nat (n div 60)"
    by (rule floor_divide_of_nat_eq)
  then have fl: "\<lfloor>(of_nat n :: rat) / 60\<rfloor> = int (n div 60)" by simp
  have "(of_nat (60 * (n div 60) + n mod 60) :: rat) = of_nat n"
    by (simp only: mult_div_mod_eq)
  then have "60 * of_nat (n div 60) + of_nat (n mod 60) = (of_nat n :: rat)"
    by (simp only: of_nat_add of_nat_mult of_nat_numeral)
  then have "(of_nat n :: rat) - 60 * of_nat (n div 60) = of_nat (n mod 60)" by linarith
  with fl show ?thesis by simp
qed

lemma sixtieth_rounds_below:
  assumes "0 < n" and "n < 2 ^ 53"
  shows "round_to_double (of_nat n / 60) < of_nat (n div 60) + 1"
proof -
  let ?x = "of_nat n / 60 :: rat"
  let ?q = "n div 60"
  from assms(1) have pos: "0 < ?x" by simp
  from assms(2) have "(of_nat n :: rat) < 2 ^ 53" by (rule of_nat_less_pow2)
  then have "?x < 2 powi 48" by simp
  with pos have "exponent ?x < 48" by (rule exponent_less)
  then have e: "ulp_exponent ?x \<le> - 5" by (simp add: ulp_exponent_def)
  define d where "d = nat (- ulp_exponent ?x)"
  from e have ed: "ulp_exponent ?x = - int d" and d5: "5 \<le> d" by (simp_all add: d_def)
  have pw: "(2::rat) powi ulp_exponent ?x = 1 / 2 ^ d"
    by (simp add: ed power_int_minus field_simps)
  from d5 have "(2::rat) ^ 5 \<le> 2 ^ d" by (intro power_increasing) simp_all
  then have big: "(32::rat) \<le> 2 ^ d" by simp
  have "n = 60 * ?q + n mod 60" by simp
  moreover have "n mod 60 \<le> 59" by (simp add: less_Suc_eq_le [symmetric])
  ultimately have "n \<le> 60 * ?q + 59" by linarith
  then have "(of_nat n :: rat) \<le> of_nat (60 * ?q + 59)" by (simp only: of_nat_le_iff)
  then have xq: "?x \<le> of_nat ?q + 59 / 60" by simp
  define K where "K = int (?q + 1) * 2 ^ d"
  have "?x * 2 ^ d \<le> (of_nat ?q + 59 / 60) * 2 ^ d"
    using xq by (intro mult_right_mono) simp_all
  also have "\<dots> = of_int K - 2 ^ d / 60" by (simp add: K_def algebra_simps)
  also have "\<dots> < of_int K - 1 / 2" using big by simp
  finally have z: "?x * 2 ^ d < of_int K - 1 / 2" .
  have "of_int (round_half_even (?x * 2 ^ d)) \<le> ?x * 2 ^ d + 1 / 2"
    by (rule round_half_even_upper)
  with z have "(of_int (round_half_even (?x * 2 ^ d)) :: rat) < of_int K" by simp
  then have "round_half_even (?x * 2 ^ d) \<le> K - 1" by simp
  then have "(of_int (round_half_even (?x * 2 ^ d)) :: rat) \<le> of_int (K - 1)"
    by (simp only: of_int_le_iff)
  then have "of_int (round_half_even (?x * 2 ^ d)) / 2 ^ d \<le> (of_int (K - 1) :: rat) / 2 ^ d"
    by (intro divide_right_mono) simp_all
  also have "(of_int (K - 1) :: rat) / 2 ^ d = of_nat ?q + 1 - 1 / 2 ^ d"
    by (simp add: K_def field_simps)
  also have "\<dots> < of_nat ?q + 1" by simp
  finally have "of_int (round_half_even (?x * 2 ^ d)) / 2 ^ d < (of_nat ?q + 1 :: rat)" .
  moreover have "round_to_double ?x = of_int (round_half_even (?x * 2 ^ d)) / 2 ^ d"
    by (simp add: round_to_double_pos [OF pos] pw)
  ultimately show ?thesis by simp
qed

lemma minutes_of_safe:
  assumes "n < 2 ^ 53"
  shows "Math_floor (js_div (Finite (of_nat n)) (Finite 60)) = Finite (of_nat (n div 60))"
proof (cases "n = 0")
  case True
  then show ?thesis by (simp add: to_double_zero)
next
  case False
  let ?x = "of_nat n / 60 :: rat"
  let ?q = "n div 60"
  from False have n0: "0 < n" by simp
  from n0 assms have up: "round_to_double ?x < of_nat ?q + 1" by (rule sixtieth_rounds_below)
  from assms have q53: "?q < 2 ^ 53" by (simp add: div_le_dividend le_less_trans)
  have "of_nat ?q \<le> ?x"
  proof -
    have "60 * ?q \<le> n" by simp
    then have "(of_nat (60 * ?q) :: rat) \<le> of_nat n" by (simp only: of_nat_le_iff)
    then show ?thesis by simp
  qed
  then have "round_to_double (of_nat ?q) \<le> round_to_double ?x" by (rule round_to_double_mono)
  with q53 have lo: "of_nat ?q \<le> round_to_double ?x" by (simp add: round_to_double_of_nat)
  from q53 have "(of_nat ?q :: rat) < 2 ^ 53" by (rule of_nat_less_pow2)
  with up have "round_to_double ?x < 2 ^ 53 + 1" by simp
  moreover have "(2::rat) ^ 53 + 1 < 2 ^ 1024" by simp
  ultimately have "round_to_double ?x < 2 ^ 1024" by (rule less_trans)
  then have fin: "to_double ?x = Finite (round_to_double ?x)" by (simp add: to_double_def)
  from lo up have "\<lfloor>round_to_double ?x\<rfloor> = int ?q"
    by (simp add: floor_eq_iff)
  with fin show ?thesis by simp
qed

lemma round_to_double_2_53: "round_to_double (2 ^ 53) = 2 ^ 53"
  by (simp add: eval_double)

lemma represents_safe:
  assumes "x < 2 ^ 53"
  shows "represents x s p \<longleftrightarrow> 1 \<le> s \<and> s * 10 ^ p = x"
proof (cases "s * 10 ^ p < 2 ^ 53")
  case True
  then have "to_double (of_nat (s * 10 ^ p)) = Finite (of_nat (s * 10 ^ p))"
    by (rule to_double_of_nat)
  then show ?thesis by (simp only: represents_def number.inject of_nat_eq_iff)
next
  case False
  then have "(2::nat) ^ 53 \<le> s * 10 ^ p" by simp
  then have "(2::rat) ^ 53 \<le> of_nat (s * 10 ^ p)" by (rule pow2_le_of_nat)
  then have "round_to_double (2 ^ 53) \<le> round_to_double (of_nat (s * 10 ^ p))"
    by (rule round_to_double_mono)
  then have big: "2 ^ 53 \<le> round_to_double (of_nat (s * 10 ^ p))"
    by (simp only: round_to_double_2_53)
  from assms have "(of_nat x :: rat) < 2 ^ 53" by (rule of_nat_less_pow2)
  with big have "round_to_double (of_nat (s * 10 ^ p)) \<noteq> of_nat x" by simp
  with to_double_cases [of "of_nat (s * 10 ^ p)"]
  have "to_double (of_nat (s * 10 ^ p)) \<noteq> Finite (of_nat x)" by auto
  moreover from False assms have "s * 10 ^ p \<noteq> x" by auto
  ultimately show ?thesis by (simp add: represents_def)
qed

lemma shortest_safe:
  assumes "1 \<le> x" and "x < 2 ^ 53"
  shows "fst (shortest x p) * 10 ^ snd (shortest x p) = x \<and> 1 \<le> fst (shortest x p)"
proof (induction p)
  case 0
  from assms(1) show ?case by simp
next
  case (Suc p)
  show ?case
    unfolding shortest.simps Let_def
    using Suc by (simp only: represents_safe [OF assms(2)] split: if_splits) auto
qed

lemma decimal_times_10: "1 \<le> s \<Longrightarrow> decimal (s * 10) = decimal s @ ''0''"
  by (subst decimal.simps) (simp add: digit_char_def)

lemma decimal_times_pow10:
  "1 \<le> s \<Longrightarrow> decimal (s * 10 ^ p) = decimal s @ replicate p (CHR ''0'')"
proof (induction p)
  case 0
  then show ?case by simp
next
  case (Suc p)
  then have "1 \<le> s * 10 ^ p" by simp
  then have "decimal (s * 10 ^ p * 10) = decimal (s * 10 ^ p) @ ''0''"
    by (rule decimal_times_10)
  moreover have "s * 10 ^ Suc p = s * 10 ^ p * 10" by simp
  moreover have "replicate (Suc p) (CHR ''0'') = replicate p (CHR ''0'') @ ''0''"
    by (simp add: replicate_append_same)
  ultimately show ?case using Suc by (simp only: append_assoc)
qed

lemma decimal_length: "n < 10 ^ Suc k \<Longrightarrow> length (decimal n) \<le> Suc k"
proof (induction k arbitrary: n)
  case 0
  then show ?case by (subst decimal.simps) simp
next
  case (Suc k)
  show ?case
  proof (cases "n < 10")
    case True
    then show ?thesis by (subst decimal.simps) simp
  next
    case False
    from Suc.prems have "n div 10 < 10 ^ Suc k" by simp
    then have "length (decimal (n div 10)) \<le> Suc k" by (rule Suc.IH)
    with False show ?thesis by (subst decimal.simps) simp
  qed
qed

lemma Number_toString_safe:
  assumes "x < 2 ^ 53"
  shows "Number_toString x = decimal x"
proof (cases "x = 0")
  case True
  then show ?thesis by (simp add: Number_toString_def decimal.simps digit_char_def)
next
  case False
  define s where "s = fst (shortest x (length (decimal x)))"
  define p where "p = snd (shortest x (length (decimal x)))"
  from False assms have sp: "s * 10 ^ p = x" "1 \<le> s"
    using shortest_safe [of x "length (decimal x)"] by (simp_all add: s_def p_def)
  then have dec: "decimal x = decimal s @ replicate p (CHR ''0'')"
    using decimal_times_pow10 [of s p] by simp
  have "(2::nat) ^ 53 < 10 ^ Suc 15" by simp
  with assms have "x < 10 ^ Suc 15" by (rule less_trans)
  then have "length (decimal x) \<le> Suc 15" by (rule decimal_length)
  with dec have n: "length (decimal s) + p \<le> 21" by simp
  have "shortest x (length (decimal x)) = (s, p)" by (simp add: s_def p_def)
  with False n dec show ?thesis by (simp add: Number_toString_def Let_def)
qed

lemma Number_toString_0: "Number_toString 0 = ''0''"
  by (simp add: Number_toString_def)

lemma not_represented_e22: "\<not> represents 1000000000000000000000 (Suc 0) 22"
  by (simp add: represents_def eval_double)

lemma represented_e21: "represents 1000000000000000000000 (Suc 0) 21"
  by (simp add: represents_def eval_double)

lemma shortest_e21: "shortest 1000000000000000000000 22 = (1, 21)"
proof -
  have "shortest 1000000000000000000000 22 = shortest 1000000000000000000000 (Suc 21)"
    by simp
  also have "\<dots> = shortest 1000000000000000000000 21"
    by (subst shortest.simps(2)) (simp add: not_represented_e22 represents_def [of _ 0] Let_def)
  also have "\<dots> = shortest 1000000000000000000000 (Suc 20)"
    by simp
  also have "\<dots> = (1, 21)"
    by (subst shortest.simps(2)) (simp add: represented_e21 Let_def)
  finally show ?thesis .
qed

lemma decimal_e21: "decimal 1000000000000000000000 = ''1000000000000000000000''"
  by (simp add: decimal.simps digit_char_def)

lemma decimal_e21_length: "length (decimal 1000000000000000000000) = 22"
  by (simp add: decimal_e21)

lemma Number_toString_e21: "Number_toString 1000000000000000000000 = ''1e+21''"
  unfolding Number_toString_def decimal_e21_length shortest_e21
  by (simp add: decimal.simps digit_char_def)

text \<open>
  C10, as stated: for every nonnegative integer number of seconds the minutes part is
  the decimal representation of \<open>s div 60\<close>. On the code this fails from \<open>10 ^ 21\<close>
  minutes on, where \<^verbatim>\<open>toString\<close> changes to exponent notation: 6e22 seconds, a double,
  are rendered as \<^verbatim>\<open>1e+21:00\<close>, while the decimal representation of the minutes has 22
  digits.
\<close>

theorem formatDuration_exponent_counterexample:
  "is_double 60000000000000000000000
   \<and> formatDuration 60000000000000000000000 = ''1e+21:00''
   \<and> decimal (60000000000000000000000 div 60) = ''1000000000000000000000''"
proof -
  have d: "js_div (Finite (of_nat 60000000000000000000000)) (Finite 60)
      = Finite 1000000000000000000000"
    by (simp add: eval_double)
  have r: "js_rem (Finite (of_nat 60000000000000000000000)) (Finite 60) = Finite 0"
    by (simp add: floor_numeral_quotient)
  have "formatDuration 60000000000000000000000 = ''1e+21:00''"
    unfolding formatDuration_def d r
    by (simp add: Number_toString_e21 Number_toString_0 padStart_def)
  moreover have "is_double 60000000000000000000000"
    by (simp add: is_double_def eval_double)
  ultimately show ?thesis by (simp add: decimal_e21)
qed

text \<open>
  C10, amended: for every nonnegative integer number of seconds \<open>s\<close> up to
  \<^verbatim>\<open>Number.MAX_SAFE_INTEGER\<close>, \<open>formatDuration s\<close> is a minutes part, a colon and a
  seconds part: the minutes part is the decimal numeral of \<open>s div 60\<close> (digits only, no
  leading zero, value \<open>s div 60\<close>), and the seconds part is exactly two digits whose
  value is \<open>s mod 60\<close>, so a one-digit remainder is padded with a zero on the left.
\<close>

theorem formatDuration_decimal:
  assumes "s \<le> MAX_SAFE_INTEGER"
  shows "\<exists>m r. formatDuration s = m @ '':'' @ r
     \<and> canonical_decimal m \<and> decimal_value m = s div 60
     \<and> length r = 2 \<and> list_all is_digit r \<and> decimal_value r = s mod 60"
proof -
  from assms have s: "s < 2 ^ 53" by (simp add: MAX_SAFE_INTEGER_def)
  then have q: "s div 60 < 2 ^ 53" by (simp add: div_le_dividend le_less_trans)
  have "s mod 60 < 60" by simp
  then have rm: "s mod 60 < 2 ^ 53" by simp
  let ?m = "decimal (s div 60)"
  let ?r = "padStart 2 (CHR ''0'') (decimal (s mod 60))"
  have "toString (Math_floor (js_div (Finite (of_nat s)) (Finite 60))) = ?m"
    by (simp only: minutes_of_safe [OF s]) (simp add: Number_toString_safe [OF q])
  moreover have "toString (js_rem (Finite (of_nat s)) (Finite 60)) = decimal (s mod 60)"
    by (simp only: js_rem_of_nat) (simp add: Number_toString_safe [OF rm])
  ultimately have "formatDuration s = ?m @ '':'' @ ?r" by (simp add: formatDuration_def)
  moreover have "canonical_decimal ?m" by (rule decimal_canonical)
  moreover have "decimal_value ?m = s div 60" by (rule decimal_value_decimal)
  moreover have "length ?r = 2"
    by (rule padStart_length) (simp add: decimal_length_le2)
  moreover have "list_all is_digit ?r"
    by (simp add: padStart_def decimal_digits replicate_zero_digits)
  moreover have "decimal_value ?r = s mod 60"
    by (simp add: padStart_def decimal_value_replicate_zero decimal_value_decimal)
  ultimately show ?thesis by blast
qed

theorem formatDuration_decimal_witness:
  "125 \<le> MAX_SAFE_INTEGER
   \<and> (\<exists>m r. formatDuration 125 = m @ '':'' @ r
     \<and> canonical_decimal m \<and> decimal_value m = 2
     \<and> length r = 2 \<and> list_all is_digit r \<and> decimal_value r = 5)"
proof -
  have h: "125 \<le> MAX_SAFE_INTEGER" by (simp add: MAX_SAFE_INTEGER_def)
  from formatDuration_decimal [OF h] h show ?thesis by simp
qed

lemma formatDuration_example: "formatDuration 125 = ''2:05''"
proof -
  have "125 < (2::nat) ^ 53" by simp
  then have "Math_floor (js_div (Finite (of_nat 125)) (Finite 60)) = Finite (of_nat (125 div 60))"
    by (rule minutes_of_safe)
  then have "toString (Math_floor (js_div (Finite (of_nat 125)) (Finite 60))) = decimal (125 div 60)"
    by (simp only:) (simp add: Number_toString_safe)
  moreover have "toString (js_rem (Finite (of_nat 125)) (Finite 60)) = decimal (125 mod 60)"
    by (simp only: js_rem_of_nat) (simp add: Number_toString_safe)
  ultimately show ?thesis
    unfolding formatDuration_def Let_def
    by (simp add: decimal.simps digit_char_def padStart_def)
qed

end
